theory Spec2Isabelle
  imports Main
begin

section \<open>Go strings, runes and UTF-8\<close>

text \<open>
  A Go \<open>string\<close> is a sequence of bytes; \<open>len(s)\<close> counts bytes. It is modelled as an
  Isabelle \<open>string\<close> (a list of 8-bit \<open>char\<close>s). A Go \<open>rune\<close> is an integer code point.
  The conversion \<open>[]rune(s)\<close> decodes UTF-8, and yields U+FFFD for every byte that does not
  start a valid encoding.
\<close>

type_synonym rune = int

abbreviation rn :: "char \<Rightarrow> rune" where
  "rn c \<equiv> of_char c"

definition RuneError :: rune where
  "RuneError = 0xFFFD"

definition byte_in :: "char \<Rightarrow> int \<Rightarrow> int \<Rightarrow> bool" where
  "byte_in c lo hi \<longleftrightarrow> lo \<le> rn c \<and> rn c \<le> hi"

text \<open>\<open>utf8.DecodeRuneInString\<close>: the first rune of a string and its width in bytes.\<close>

fun DecodeRune :: "string \<Rightarrow> rune \<times> nat" where
  "DecodeRune [] = (RuneError, 0)"
| "DecodeRune (c0 # s) =
    (let b0 = rn c0 in
     if b0 < 0x80 then (b0, 1)
     else if 0xC2 \<le> b0 \<and> b0 \<le> 0xDF then
       (case s of
          c1 # _ \<Rightarrow>
            if byte_in c1 0x80 0xBF then ((b0 mod 32) * 64 + rn c1 mod 64, 2)
            else (RuneError, 1)
        | _ \<Rightarrow> (RuneError, 1))
     else if 0xE0 \<le> b0 \<and> b0 \<le> 0xEF then
       (case s of
          c1 # c2 # _ \<Rightarrow>
            if byte_in c1 (if b0 = 0xE0 then 0xA0 else 0x80) (if b0 = 0xED then 0x9F else 0xBF)
               \<and> byte_in c2 0x80 0xBF
            then ((b0 mod 16) * 4096 + (rn c1 mod 64) * 64 + rn c2 mod 64, 3)
            else (RuneError, 1)
        | _ \<Rightarrow> (RuneError, 1))
     else if 0xF0 \<le> b0 \<and> b0 \<le> 0xF4 then
       (case s of
          c1 # c2 # c3 # _ \<Rightarrow>
            if byte_in c1 (if b0 = 0xF0 then 0x90 else 0x80) (if b0 = 0xF4 then 0x8F else 0xBF)
               \<and> byte_in c2 0x80 0xBF \<and> byte_in c3 0x80 0xBF
            then ((b0 mod 8) * 262144 + (rn c1 mod 64) * 4096 + (rn c2 mod 64) * 64
                  + rn c3 mod 64, 4)
            else (RuneError, 1)
        | _ \<Rightarrow> (RuneError, 1))
     else (RuneError, 1))"

lemma DecodeRune_width: "s \<noteq> [] \<Longrightarrow> 1 \<le> snd (DecodeRune s)"
  by (cases s) (auto simp: Let_def split: list.splits)

text \<open>The conversion \<open>[]rune(s)\<close>.\<close>

function runes :: "string \<Rightarrow> rune list" where
  "runes s = (if s = [] then [] else fst (DecodeRune s) # runes (drop (snd (DecodeRune s)) s))"
  by pat_completeness auto
termination
proof (relation "measure length")
  show "wf (measure length)" by simp
next
  fix s :: string
  assume "s \<noteq> []"
  then have "1 \<le> snd (DecodeRune s)" "0 < length s"
    using DecodeRune_width by auto
  then show "(drop (snd (DecodeRune s)) s, s) \<in> measure length"
    by simp
qed

declare runes.simps [simp del]

text \<open>\<open>utf8.AppendRune\<close>: the UTF-8 encoding of a rune; an invalid rune is written as U+FFFD.\<close>

definition EncodeRune :: "rune \<Rightarrow> string" where
  "EncodeRune r =
    (if 0 \<le> r \<and> r \<le> 0x7F then [char_of r]
     else if 0 \<le> r \<and> r \<le> 0x7FF then [char_of (0xC0 + r div 64), char_of (0x80 + r mod 64)]
     else if r < 0 \<or> r > 0x10FFFF \<or> (0xD800 \<le> r \<and> r \<le> 0xDFFF) then [CHR 0xEF, CHR 0xBF, CHR 0xBD]
     else if r \<le> 0xFFFF then
       [char_of (0xE0 + r div 4096), char_of (0x80 + (r div 64) mod 64), char_of (0x80 + r mod 64)]
     else
       [char_of (0xF0 + r div 262144), char_of (0x80 + (r div 4096) mod 64),
        char_of (0x80 + (r div 64) mod 64), char_of (0x80 + r mod 64)])"

text \<open>The conversion \<open>string(rs)\<close> of a rune slice.\<close>

definition string_of_runes :: "rune list \<Rightarrow> string" where
  "string_of_runes rs = concat (map EncodeRune rs)"

subsection \<open>The functions of Go's package \<open>strings\<close> that the encoder calls\<close>

definition isASCII :: "string \<Rightarrow> bool" where
  "isASCII s \<longleftrightarrow> (\<forall>c \<in> set s. rn c < 0x80)"

definition upperASCII :: "char \<Rightarrow> char" where
  "upperASCII c = (if rn CHR ''a'' \<le> rn c \<and> rn c \<le> rn CHR ''z'' then char_of (rn c - 32) else c)"

definition lowerASCII :: "char \<Rightarrow> char" where
  "lowerASCII c = (if rn CHR ''A'' \<le> rn c \<and> rn c \<le> rn CHR ''Z'' then char_of (rn c + 32) else c)"

text \<open>
  \<open>unicode.ToUpper\<close> and \<open>unicode.ToLower\<close> answer for ASCII themselves and consult
  the Unicode case tables for every other rune. The tables are not part of the repository:
  they are the parameters \<open>up\<close> and \<open>lo\<close>.
\<close>

definition unicode_ToUpper :: "(rune \<Rightarrow> rune) \<Rightarrow> rune \<Rightarrow> rune" where
  "unicode_ToUpper up r =
    (if r \<le> 0x7F then (if rn CHR ''a'' \<le> r \<and> r \<le> rn CHR ''z'' then r - 32 else r) else up r)"

definition unicode_ToLower :: "(rune \<Rightarrow> rune) \<Rightarrow> rune \<Rightarrow> rune" where
  "unicode_ToLower lo r =
    (if r \<le> 0x7F then (if rn CHR ''A'' \<le> r \<and> r \<le> rn CHR ''Z'' then r + 32 else r) else lo r)"

text \<open>\<open>strings.Map\<close>: a negative result of the mapping drops the rune.\<close>

definition Map_s :: "(rune \<Rightarrow> rune) \<Rightarrow> string \<Rightarrow> string" where
  "Map_s f s = concat (map (\<lambda>r. if f r < 0 then [] else EncodeRune (f r)) (runes s))"

text \<open>\<open>strings.ToUpper\<close> and \<open>strings.ToLower\<close>, with their fast path for ASCII strings.\<close>

definition ToUpper :: "(rune \<Rightarrow> rune) \<Rightarrow> string \<Rightarrow> string" where
  "ToUpper up s = (if isASCII s then map upperASCII s else Map_s (unicode_ToUpper up) s)"

definition ToLower :: "(rune \<Rightarrow> rune) \<Rightarrow> string \<Rightarrow> string" where
  "ToLower lo s = (if isASCII s then map lowerASCII s else Map_s (unicode_ToLower lo) s)"

fun HasPrefix :: "string \<Rightarrow> string \<Rightarrow> bool" where
  "HasPrefix s [] = True"
| "HasPrefix [] (p # ps) = False"
| "HasPrefix (c # cs) (p # ps) = (c = p \<and> HasPrefix cs ps)"

text \<open>\<open>strings.Contains\<close>: \<open>substr\<close> occurs in \<open>s\<close> at some byte offset.\<close>

fun Contains :: "string \<Rightarrow> string \<Rightarrow> bool" where
  "Contains [] substr = HasPrefix [] substr"
| "Contains (c # cs) substr = (HasPrefix (c # cs) substr \<or> Contains cs substr)"

text \<open>\<open>strings.ContainsRune\<close>, for a string that is valid UTF-8.\<close>

definition ContainsRune :: "string \<Rightarrow> rune \<Rightarrow> bool" where
  "ContainsRune s r \<longleftrightarrow> r \<in> set (runes s)"

section \<open>The encoder: \<open>DoubleMetaphone\<close>\<close>

text \<open>
  The variables of \<open>DoubleMetaphone\<close> that its closures capture and never change after the
  set-up are the fields of \<open>env\<close>; the ones the pass updates are the fields of \<open>enc\<close>.
  \<open>length_w\<close> is \<open>len(word)\<close> of the word as passed in (bytes, before uppercasing),
  \<open>word\<close> is the uppercased and padded word, \<open>rword\<close> its runes.
  Go's \<open>int\<close> has 64 bits. The cursor stays below \<open>len(word) + 4\<close>, every window is a
  literal offset and length away from it, and \<open>maxlength\<close> is only compared and used as a
  slice bound under a guard, so no operation of the encoder can overflow: the integers of
  the model are unbounded.
\<close>

record env =
  word :: string
  rword :: "rune list"
  length_w :: int
  last_w :: int
  maxlength :: int

record enc =
  primary :: string
  secondary :: string
  alternate :: bool
  current :: int

text \<open>
  The ways a Go program of this shape can panic: the explicit \<open>panic\<close> of \<open>MetaphAdd\<close>,
  an index out of range and slice bounds out of range.
\<close>

datatype panic = MetaphAdd_arity | index_out_of_range | slice_bounds_out_of_range

text \<open>
  The index expression \<open>rs[i]\<close> and the slice expression \<open>rs[lo:hi]\<close> of Go. Go checks
  the upper bound of a slice expression against the capacity of \<open>rs\<close>; \<open>slice_runes\<close>
  checks it against the length, which is never more: where \<open>slice_runes\<close> yields a slice,
  so does Go, and it is the same one.
\<close>

definition index_rune :: "rune list \<Rightarrow> int \<Rightarrow> panic + rune" where
  "index_rune rs i =
    (if 0 \<le> i \<and> i < int (length rs) then Inr (rs ! nat i) else Inl index_out_of_range)"

definition slice_runes :: "rune list \<Rightarrow> int \<Rightarrow> int \<Rightarrow> panic + rune list" where
  "slice_runes rs lo hi =
    (if 0 \<le> lo \<and> lo \<le> hi \<and> hi \<le> int (length rs)
     then Inr (take (nat (hi - lo)) (drop (nat lo) rs))
     else Inl slice_bounds_out_of_range)"

definition rwordLen :: "env \<Rightarrow> int" where
  "rwordLen v = int (length (rword v))"

definition Found :: "env \<Rightarrow> string \<Rightarrow> bool" where
  "Found v s = Contains (word v) s"

definition SlavoGermanic :: "env \<Rightarrow> bool" where
  "SlavoGermanic v \<longleftrightarrow> Found v ''W'' \<or> Found v ''K'' \<or> Found v ''CZ''"

text \<open>
  \<open>MetaphAdd(s ...string)\<close>: the tokens are the list \<open>s\<close>; the panic on a wrong number of
  tokens is the result \<open>Inl MetaphAdd_arity\<close>.
\<close>

definition MetaphAdd :: "string list \<Rightarrow> enc \<Rightarrow> panic + enc" where
  "MetaphAdd s e =
    (if length s < 1 \<or> length s > 2 then Inl MetaphAdd_arity
     else
       let main = s ! 0;
           e1 = e\<lparr>primary := primary e @ main\<rparr>
       in if length s = 1 then Inr (e1\<lparr>secondary := secondary e1 @ main\<rparr>)
          else
            let alt = s ! 1
            in if length alt > 0 then
                 (let e2 = e1\<lparr>alternate := True\<rparr>
                  in if alt ! 0 \<noteq> CHR '' '' then Inr (e2\<lparr>secondary := secondary e2 @ alt\<rparr>)
                     else Inr e2)
               else if length main > 0 \<and> main ! 0 \<noteq> CHR '' '' then
                 Inr (e1\<lparr>secondary := secondary e1 @ main\<rparr>)
               else Inr e1)"

text \<open>
  \<open>GetAt\<close>: the rune at index \<open>at\<close>, or 0 when \<open>at\<close> is out of range. The guard keeps
  the index expression \<open>rword[at]\<close> in range, so the read is written with \<open>!\<close>.
\<close>

definition GetAt :: "env \<Rightarrow> int \<Rightarrow> rune" where
  "GetAt v at = (if at < 0 \<or> at \<ge> rwordLen v then 0 else rword v ! nat at)"

definition IsVowel :: "env \<Rightarrow> int \<Rightarrow> bool" where
  "IsVowel v at = (if at < 0 \<or> at \<ge> rwordLen v then False else ContainsRune ''AEIOUY'' (GetAt v at))"

text \<open>
  \<open>StringAt(start, length, s...)\<close>: every call in the encoder passes a literal, positive
  \<open>length\<close>, so the parameter is a natural number here. Past the guard the slice
  \<open>rword[start : start+length]\<close> lies inside \<open>rword\<close>.
\<close>

definition StringAt :: "env \<Rightarrow> int \<Rightarrow> nat \<Rightarrow> string list \<Rightarrow> bool" where
  "StringAt v start len s =
    (if start < 0 \<or> start + int len \<ge> rwordLen v then False
     else
       let target = string_of_runes (take len (drop (nat start) (rword v)))
       in target \<in> set s)"

text \<open>\<open>current += n\<close>.\<close>

definition advance :: "int \<Rightarrow> enc \<Rightarrow> enc" where
  "advance n e = e\<lparr>current := current e + n\<rparr>"

text \<open>Sequencing of a step that may panic with the statements after it.\<close>

definition and_then :: "panic + enc \<Rightarrow> (enc \<Rightarrow> panic + enc) \<Rightarrow> panic + enc" where
  "and_then r f = (case r of Inl p \<Rightarrow> Inl p | Inr e \<Rightarrow> f e)"

subsection \<open>The cases of the dispatch on the current rune\<close>

text \<open>
  Each function below is one \<open>case\<close> of the \<open>switch GetAt(current)\<close> in the main loop,
  with its sub-rules in the order of the source; a \<open>break\<close> ends the case.
\<close>

definition case_vowel :: "env \<Rightarrow> enc \<Rightarrow> panic + enc" where
  "case_vowel v e =
    and_then (if current e = 0 then MetaphAdd [''A''] e else Inr e) (Inr \<circ> advance 1)"

definition case_B :: "env \<Rightarrow> enc \<Rightarrow> panic + enc" where
  "case_B v e =
    and_then (MetaphAdd [''P''] e)
      (\<lambda>e1. if GetAt v (current e1 + 1) = rn CHR ''B'' then Inr (advance 2 e1)
            else Inr (advance 1 e1))"

definition case_C_cedilla :: "env \<Rightarrow> enc \<Rightarrow> panic + enc" where
  "case_C_cedilla v e = and_then (MetaphAdd [''S''] e) (Inr \<circ> advance 1)"

definition case_C :: "env \<Rightarrow> enc \<Rightarrow> panic + enc" where
  "case_C v e =
    (let c = current e in
     if c > 1 \<and> \<not> IsVowel v (c - 2) \<and> StringAt v (c - 1) 3 [''ACH''] \<and>
        (GetAt v (c + 2) \<noteq> rn CHR ''I'' \<and>
         (GetAt v (c + 2) \<noteq> rn CHR ''E'' \<or> StringAt v (c - 2) 6 [''BACHER'', ''MACHER'']))
     then and_then (MetaphAdd [''K''] e) (Inr \<circ> advance 2)
     else if c = 0 \<and> StringAt v c 6 [''CAESAR'']
     then and_then (MetaphAdd [''S''] e) (Inr \<circ> advance 2)
     else if StringAt v c 4 [''CHIA'']
     then and_then (MetaphAdd [''K''] e) (Inr \<circ> advance 2)
     else if StringAt v c 2 [''CH''] then
       (if c > 0 \<and> StringAt v c 4 [''CHAE'']
        then and_then (MetaphAdd [''K'', ''X''] e) (Inr \<circ> advance 2)
        else if c = 0 \<and>
                (StringAt v (c + 1) 5 [''HARAC'', ''HARIS''] \<or>
                 StringAt v (c + 1) 3 [''HOR'', ''HYM'', ''HIA'', ''HEM'']) \<and>
                \<not> StringAt v 0 5 [''CHORE'']
        then and_then (MetaphAdd [''K''] e) (Inr \<circ> advance 2)
        else
          and_then
            (if (StringAt v 0 4 [''VAN '', ''VON ''] \<or> StringAt v 0 3 [''SCH'']) \<or>
                StringAt v (c - 2) 6 [''ORCHES'', ''ARCHIT'', ''ORCHID''] \<or>
                StringAt v (c + 2) 1 [''T'', ''S''] \<or>
                ((StringAt v (c - 1) 1 [''A'', ''O'', ''U'', ''E''] \<or> c = 0) \<and>
                 StringAt v (c + 2) 1
                   [''L'', ''R'', ''N'', ''M'', ''B'', ''H'', ''F'', ''V'', ''W'', '' ''])
             then MetaphAdd [''K''] e
             else if c > 0 then
               (if StringAt v 0 2 [''MC''] then MetaphAdd [''K''] e
                else MetaphAdd [''X'', ''K''] e)
             else MetaphAdd [''X''] e)
            (Inr \<circ> advance 2))
     else if StringAt v c 2 [''CZ''] \<and> \<not> StringAt v (c - 2) 4 [''WICZ'']
     then and_then (MetaphAdd [''S'', ''X''] e) (Inr \<circ> advance 2)
     else if StringAt v (c + 1) 3 [''CIA'']
     then and_then (MetaphAdd [''X''] e) (Inr \<circ> advance 3)
     else if StringAt v c 2 [''CC''] \<and> \<not> (c = 1 \<and> GetAt v 0 = rn CHR ''M'') then
       (if StringAt v (c + 2) 1 [''I'', ''E'', ''H''] \<and> \<not> StringAt v (c + 2) 2 [''HU''] then
          and_then
            (if (c = 1 \<and> GetAt v (c - 1) = rn CHR ''A'') \<or>
                StringAt v (c - 1) 5 [''UCCEE'', ''UCCES'']
             then MetaphAdd [''KS''] e
             else MetaphAdd [''X''] e)
            (Inr \<circ> advance 3)
        else and_then (MetaphAdd [''K''] e) (Inr \<circ> advance 2))
     else if StringAt v c 2 [''CK'', ''CG'', ''CQ'']
     then and_then (MetaphAdd [''K''] e) (Inr \<circ> advance 2)
     else if StringAt v c 2 [''CI'', ''CE'', ''CY''] then
       and_then
         (if StringAt v c 3 [''CIO'', ''CIE'', ''CIA''] then MetaphAdd [''S'', ''X''] e
          else MetaphAdd [''S''] e)
         (Inr \<circ> advance 2)
     else
       and_then (MetaphAdd [''K''] e)
         (\<lambda>e1. if StringAt v (c + 1) 2 ['' C'', '' Q'', '' G''] then Inr (advance 3 e1)
               else if StringAt v (c + 1) 1 [''C'', ''K'', ''Q''] \<and>
                       \<not> StringAt v (c + 1) 2 [''CE'', ''CI'']
               then Inr (advance 2 e1)
               else Inr (advance 1 e1)))"

definition case_D :: "env \<Rightarrow> enc \<Rightarrow> panic + enc" where
  "case_D v e =
    (let c = current e in
     if StringAt v c 2 [''DG''] then
       (if StringAt v (c + 2) 1 [''I'', ''E'', ''Y'']
        then and_then (MetaphAdd [''J''] e) (Inr \<circ> advance 3)
        else and_then (MetaphAdd [''TK''] e) (Inr \<circ> advance 2))
     else if StringAt v c 2 [''DT'', ''DD'']
     then and_then (MetaphAdd [''T''] e) (Inr \<circ> advance 2)
     else and_then (MetaphAdd [''T''] e) (Inr \<circ> advance 1))"

definition case_F :: "env \<Rightarrow> enc \<Rightarrow> panic + enc" where
  "case_F v e =
    MetaphAdd [''F'']
      (if GetAt v (current e + 1) = rn CHR ''F'' then advance 2 e else advance 1 e)"

definition case_G :: "env \<Rightarrow> enc \<Rightarrow> panic + enc" where
  "case_G v e =
    (let c = current e in
     if GetAt v (c + 1) = rn CHR ''H'' then
       (if c > 0 \<and> \<not> IsVowel v (c - 1)
        then and_then (MetaphAdd [''K''] e) (Inr \<circ> advance 2)
        else if c < 3 \<and> c = 0 then
          and_then
            (if GetAt v (c + 2) = rn CHR ''I'' then MetaphAdd [''J''] e
             else MetaphAdd [''K''] e)
            (Inr \<circ> advance 2)
        else
          and_then
            (if \<not> ((c > 1 \<and> StringAt v (c - 2) 1 [''B'', ''H'', ''D'']) \<or>
                    (c > 2 \<and> StringAt v (c - 3) 1 [''B'', ''H'', ''D'']) \<or>
                    (c > 3 \<and> StringAt v (c - 4) 1 [''B'', ''H'']))
             then
               (if c > 2 \<and> GetAt v (c - 1) = rn CHR ''U'' \<and>
                   StringAt v (c - 3) 1 [''C'', ''G'', ''L'', ''R'', ''T'']
                then MetaphAdd [''F''] e
                else if c > 0 \<and> GetAt v (c - 1) \<noteq> rn CHR ''I'' then MetaphAdd [''K''] e
                else Inr e)
             else Inr e)
            (Inr \<circ> advance 2))
     else if GetAt v (c + 1) = rn CHR ''N'' then
       and_then
         (if c = 1 \<and> IsVowel v 0 \<and> \<not> SlavoGermanic v then MetaphAdd [''KN'', ''N''] e
          else if \<not> StringAt v (c + 2) 2 [''EY''] \<and> GetAt v (c + 1) \<noteq> rn CHR ''Y'' \<and>
                  \<not> SlavoGermanic v
          then MetaphAdd [''N'', ''KN''] e
          else MetaphAdd [''KN''] e)
         (Inr \<circ> advance 2)
     else if StringAt v (c + 1) 2 [''LI''] \<and> \<not> SlavoGermanic v
     then and_then (MetaphAdd [''KL'', ''L''] e) (Inr \<circ> advance 2)
     else if c = 0 \<and>
             (GetAt v (c + 1) = rn CHR ''Y'' \<or>
              StringAt v (c + 1) 2
                [''ES'', ''EP'', ''EB'', ''EL'', ''EY'', ''IB'', ''IL'', ''IN'', ''IE'', ''EI'', ''ER''])
     then and_then (MetaphAdd [''K'', ''J''] e) (Inr \<circ> advance 2)
     else if (StringAt v (c + 1) 2 [''ER''] \<or> GetAt v (c + 1) = rn CHR ''Y'') \<and>
             \<not> StringAt v 0 6 [''DANGER'', ''RANGER'', ''MANGER''] \<and>
             \<not> StringAt v (c - 1) 1 [''E'', ''I''] \<and>
             \<not> StringAt v (c - 1) 3 [''RGY'', ''OGY'']
     then and_then (MetaphAdd [''K'', ''J''] e) (Inr \<circ> advance 2)
     else if StringAt v (c + 1) 1 [''E'', ''I'', ''Y''] \<or>
             StringAt v (c - 1) 4 [''AGGI'', ''OGGI''] then
       and_then
         (if StringAt v 0 4 [''VAN '', ''VON ''] \<or> StringAt v 0 3 [''SCH''] \<or>
             StringAt v (c + 1) 2 [''ET'']
          then MetaphAdd [''K''] e
          else if StringAt v (c + 1) 4 [''IER ''] then MetaphAdd [''J''] e
          else MetaphAdd [''J'', ''K''] e)
         (Inr \<circ> advance 2)
     else
       MetaphAdd [''K'']
         (if GetAt v (c + 1) = rn CHR ''G'' then advance 2 e else advance 1 e))"

definition case_H :: "env \<Rightarrow> enc \<Rightarrow> panic + enc" where
  "case_H v e =
    (let c = current e in
     if (c = 0 \<or> IsVowel v (c - 1)) \<and> IsVowel v (c + 1)
     then and_then (MetaphAdd [''H''] e) (Inr \<circ> advance 2)
     else Inr (advance 1 e))"

definition case_J :: "env \<Rightarrow> enc \<Rightarrow> panic + enc" where
  "case_J v e =
    (let c = current e in
     if StringAt v c 4 [''JOSE''] \<or> StringAt v 0 4 [''SAN ''] then
       and_then
         (if (c = 0 \<and> GetAt v (c + 4) = rn CHR '' '') \<or> StringAt v 0 4 [''SAN '']
          then MetaphAdd [''H''] e
          else MetaphAdd [''J'', ''H''] e)
         (Inr \<circ> advance 1)
     else
       and_then
         (if c = 0 \<and> \<not> StringAt v c 4 [''JOSE''] then MetaphAdd [''J'', ''A''] e
          else if IsVowel v (c - 1) \<and> \<not> SlavoGermanic v \<and>
                  (GetAt v (c + 1) = rn CHR ''A'' \<or> GetAt v (c + 1) = rn CHR ''O'')
          then MetaphAdd [''J'', ''H''] e
          else if c = last_w v then MetaphAdd [''J'', '' ''] e
          else if \<not> StringAt v (c + 1) 1 [''L'', ''T'', ''K'', ''S'', ''N'', ''M'', ''B'', ''Z''] \<and>
                  \<not> StringAt v (c - 1) 1 [''S'', ''K'', ''L'']
          then MetaphAdd [''J''] e
          else Inr e)
         (\<lambda>e1. if GetAt v (current e1 + 1) = rn CHR ''J'' then Inr (advance 2 e1)
               else Inr (advance 1 e1)))"

definition case_K :: "env \<Rightarrow> enc \<Rightarrow> panic + enc" where
  "case_K v e =
    MetaphAdd [''K'']
      (if GetAt v (current e + 1) = rn CHR ''K'' then advance 2 e else advance 1 e)"

definition case_L :: "env \<Rightarrow> enc \<Rightarrow> panic + enc" where
  "case_L v e =
    (let c = current e in
     if GetAt v (c + 1) = rn CHR ''L'' then
       (if (c = length_w v - 3 \<and> StringAt v (c - 1) 4 [''ILLO'', ''ILLA'', ''ALLE'']) \<or>
           ((StringAt v (last_w v - 1) 2 [''AS'', ''OS''] \<or> StringAt v (last_w v) 1 [''A'', ''O'']) \<and>
            StringAt v (c - 1) 4 [''ALLE''])
        then and_then (MetaphAdd [''L'', '' ''] e) (Inr \<circ> advance 2)
        else MetaphAdd [''L''] (advance 2 e))
     else MetaphAdd [''L''] (advance 1 e))"

definition case_M :: "env \<Rightarrow> enc \<Rightarrow> panic + enc" where
  "case_M v e =
    (let c = current e in
     MetaphAdd [''M'']
       (if (StringAt v (c - 1) 3 [''UMB''] \<and>
            (c + 1 = last_w v \<or> StringAt v (c + 2) 2 [''ER''])) \<or>
           GetAt v (c + 1) = rn CHR ''M''
        then advance 2 e
        else advance 1 e))"

definition case_N :: "env \<Rightarrow> enc \<Rightarrow> panic + enc" where
  "case_N v e =
    MetaphAdd [''N'']
      (if GetAt v (current e + 1) = rn CHR ''N'' then advance 2 e else advance 1 e)"

definition case_N_tilde :: "env \<Rightarrow> enc \<Rightarrow> panic + enc" where
  "case_N_tilde v e = MetaphAdd [''N''] (advance 1 e)"

definition case_P :: "env \<Rightarrow> enc \<Rightarrow> panic + enc" where
  "case_P v e =
    (let c = current e in
     if GetAt v (c + 1) = rn CHR ''H''
     then and_then (MetaphAdd [''F''] e) (Inr \<circ> advance 2)
     else
       MetaphAdd [''P'']
         (if StringAt v (c + 1) 1 [''P'', ''B''] then advance 2 e else advance 1 e))"

definition case_Q :: "env \<Rightarrow> enc \<Rightarrow> panic + enc" where
  "case_Q v e =
    MetaphAdd [''K'']
      (if GetAt v (current e + 1) = rn CHR ''Q'' then advance 2 e else advance 1 e)"

definition case_R :: "env \<Rightarrow> enc \<Rightarrow> panic + enc" where
  "case_R v e =
    (let c = current e in
     and_then
       (if c = last_w v \<and> \<not> SlavoGermanic v \<and> StringAt v (c - 2) 2 [''IE''] \<and>
           \<not> StringAt v (c - 4) 2 [''ME'', ''MA'']
        then MetaphAdd ['''', ''R''] e
        else MetaphAdd [''R''] e)
       (\<lambda>e1. if GetAt v (current e1 + 1) = rn CHR ''R'' then Inr (advance 2 e1)
             else Inr (advance 1 e1)))"

definition case_S :: "env \<Rightarrow> enc \<Rightarrow> panic + enc" where
  "case_S v e =
    (let c = current e in
     if StringAt v (c - 1) 3 [''ISL'', ''YSL''] then Inr (advance 1 e)
     else if c = 0 \<and> StringAt v c 5 [''SUGAR'']
     then and_then (MetaphAdd [''X'', ''S''] e) (Inr \<circ> advance 1)
     else if StringAt v c 2 [''SH''] then
       and_then
         (if StringAt v (c + 1) 4 [''HEIM'', ''HOEK'', ''HOLM'', ''HOLZ''] then MetaphAdd [''S''] e
          else MetaphAdd [''X''] e)
         (Inr \<circ> advance 2)
     else if StringAt v c 3 [''SIO'', ''SIA''] \<or> StringAt v c 4 [''SIAN''] then
       and_then
         (if \<not> SlavoGermanic v then MetaphAdd [''S'', ''X''] e else MetaphAdd [''S''] e)
         (Inr \<circ> advance 3)
     else if c = 0 \<and> StringAt v (c + 1) 1 [''M'', ''N'', ''L'', ''W''] \<or>
             StringAt v (c + 1) 1 [''Z''] then
       and_then (MetaphAdd [''S'', ''X''] e)
         (\<lambda>e1. if StringAt v (c + 1) 1 [''Z''] then Inr (advance 2 e1)
               else Inr (advance 1 e1))
     else if StringAt v c 2 [''SC''] then
       (if GetAt v (c + 2) = rn CHR ''H'' then
          (if StringAt v (c + 3) 2 [''OO'', ''ER'', ''EN'', ''UY'', ''ED'', ''EM''] then
             and_then
               (if StringAt v (c + 3) 2 [''ER'', ''EN''] then MetaphAdd [''X'', ''SK''] e
                else MetaphAdd [''SK''] e)
               (Inr \<circ> advance 3)
           else
             and_then
               (if c = 0 \<and> \<not> IsVowel v 3 \<and> GetAt v 3 \<noteq> rn CHR ''W''
                then MetaphAdd [''X'', ''S''] e
                else MetaphAdd [''X''] e)
               (Inr \<circ> advance 3))
        else if StringAt v (c + 2) 1 [''I'', ''E'', ''Y'']
        then and_then (MetaphAdd [''S''] e) (Inr \<circ> advance 3)
        else and_then (MetaphAdd [''SK''] e) (Inr \<circ> advance 3))
     else
       and_then
         (if c = last_w v \<and> StringAt v (c - 2) 2 [''AI'', ''OI''] then MetaphAdd ['''', ''S''] e
          else MetaphAdd [''S''] e)
         (\<lambda>e1. if StringAt v (c + 1) 1 [''S'', ''Z''] then Inr (advance 2 e1)
               else Inr (advance 1 e1)))"

definition case_T :: "env \<Rightarrow> enc \<Rightarrow> panic + enc" where
  "case_T v e =
    (let c = current e in
     if StringAt v c 4 [''TION'']
     then and_then (MetaphAdd [''X''] e) (Inr \<circ> advance 3)
     else if StringAt v c 3 [''TIA'', ''TCH'']
     then and_then (MetaphAdd [''X''] e) (Inr \<circ> advance 3)
     else if StringAt v c 2 [''TH''] \<or> StringAt v c 3 [''TTH''] then
       and_then
         (if StringAt v (c + 2) 2 [''OM'', ''AM''] \<or> StringAt v 0 4 [''VAN '', ''VON ''] \<or>
             StringAt v 0 3 [''SCH'']
          then MetaphAdd [''T''] e
          else MetaphAdd [''0'', ''T''] e)
         (Inr \<circ> advance 2)
     else
       MetaphAdd [''T'']
         (if StringAt v (c + 1) 1 [''T'', ''D''] then advance 2 e else advance 1 e))"

definition case_V :: "env \<Rightarrow> enc \<Rightarrow> panic + enc" where
  "case_V v e =
    MetaphAdd [''F'']
      (if GetAt v (current e + 1) = rn CHR ''V'' then advance 2 e else advance 1 e)"

definition case_W :: "env \<Rightarrow> enc \<Rightarrow> panic + enc" where
  "case_W v e =
    (let c = current e in
     if StringAt v c 2 [''WR'']
     then and_then (MetaphAdd [''R''] e) (Inr \<circ> advance 2)
     else
       and_then
         (if c = 0 \<and> (IsVowel v (c + 1) \<or> StringAt v c 2 [''WH'']) then
            (if IsVowel v (c + 1) then MetaphAdd [''A'', ''F''] e else MetaphAdd [''A''] e)
          else Inr e)
         (\<lambda>e1. if (c = last_w v \<and> IsVowel v (c - 1)) \<or>
                  StringAt v (c - 1) 5 [''EWSKI'', ''EWSKY'', ''OWSKI'', ''OWSKY''] \<or>
                  StringAt v 0 3 [''SCH'']
               then and_then (MetaphAdd ['''', ''F''] e1) (Inr \<circ> advance 1)
               else if StringAt v c 4 [''WICZ'', ''WITZ'']
               then and_then (MetaphAdd [''TS'', ''FX''] e1) (Inr \<circ> advance 4)
               else Inr (advance 1 e1)))"

definition case_X :: "env \<Rightarrow> enc \<Rightarrow> panic + enc" where
  "case_X v e =
    (let c = current e in
     and_then
       (if \<not> (c = last_w v \<and>
               (StringAt v (c - 3) 3 [''IAU'', ''EAU''] \<or> StringAt v (c - 2) 2 [''AU'', ''OU'']))
        then MetaphAdd [''KS''] e
        else Inr e)
       (\<lambda>e1. if StringAt v (c + 1) 1 [''C'', ''X''] then Inr (advance 2 e1)
             else Inr (advance 1 e1)))"

definition case_Z :: "env \<Rightarrow> enc \<Rightarrow> panic + enc" where
  "case_Z v e =
    (let c = current e in
     if GetAt v (c + 1) = rn CHR ''H''
     then and_then (MetaphAdd [''J''] e) (Inr \<circ> advance 2)
     else
       and_then
         (if StringAt v (c + 1) 2 [''ZO'', ''ZI'', ''ZA''] \<or>
             (SlavoGermanic v \<and> (c > 0 \<and> GetAt v (c - 1) \<noteq> rn CHR ''T''))
          then MetaphAdd [''S'', ''TS''] e
          else MetaphAdd [''S''] e)
         (\<lambda>e1. if GetAt v (current e1 + 1) = rn CHR ''Z'' then Inr (advance 2 e1)
               else Inr (advance 1 e1)))"

subsection \<open>One iteration of the main loop\<close>

text \<open>
  The body of the main loop: the \<open>switch\<close> on \<open>GetAt(current)\<close>. The runes \<open>0xC7\<close> and
  \<open>0xD1\<close> are the letters C with cedilla and N with tilde. A rune that no case names
  takes the \<open>default\<close> branch.
\<close>

definition dispatch_runes :: "rune set" where
  "dispatch_runes =
    set (runes ''AEIOUYBCDFGHJKLMNPQRSTVWXZ'') \<union> {0xC7, 0xD1}"

definition step :: "env \<Rightarrow> enc \<Rightarrow> panic + enc" where
  "step v e =
    (let ch = GetAt v (current e) in
     if ch = rn CHR ''A'' \<or> ch = rn CHR ''E'' \<or> ch = rn CHR ''I'' \<or> ch = rn CHR ''O'' \<or>
        ch = rn CHR ''U'' \<or> ch = rn CHR ''Y'' then case_vowel v e
     else if ch = rn CHR ''B'' then case_B v e
     else if ch = 0xC7 then case_C_cedilla v e
     else if ch = rn CHR ''C'' then case_C v e
     else if ch = rn CHR ''D'' then case_D v e
     else if ch = rn CHR ''F'' then case_F v e
     else if ch = rn CHR ''G'' then case_G v e
     else if ch = rn CHR ''H'' then case_H v e
     else if ch = rn CHR ''J'' then case_J v e
     else if ch = rn CHR ''K'' then case_K v e
     else if ch = rn CHR ''L'' then case_L v e
     else if ch = rn CHR ''M'' then case_M v e
     else if ch = rn CHR ''N'' then case_N v e
     else if ch = 0xD1 then case_N_tilde v e
     else if ch = rn CHR ''P'' then case_P v e
     else if ch = rn CHR ''Q'' then case_Q v e
     else if ch = rn CHR ''R'' then case_R v e
     else if ch = rn CHR ''S'' then case_S v e
     else if ch = rn CHR ''T'' then case_T v e
     else if ch = rn CHR ''V'' then case_V v e
     else if ch = rn CHR ''W'' then case_W v e
     else if ch = rn CHR ''X'' then case_X v e
     else if ch = rn CHR ''Z'' then case_Z v e
     else Inr (advance 1 e))"

text \<open>The condition of the main loop.\<close>

definition loop_cond :: "env \<Rightarrow> enc \<Rightarrow> bool" where
  "loop_cond v e \<longleftrightarrow>
    current e < length_w v \<and>
    (int (length (primary e)) < maxlength v \<or> int (length (secondary e)) < maxlength v)"

subsection \<open>Every iteration moves the cursor forward\<close>

text \<open>
  An iteration of the loop never panics, moves \<open>current\<close> forward by 1 to 4 and never
  clears \<open>alternate\<close>. The three predicates below say so for the pieces an iteration is
  made of; the main loop's termination rests on them.
\<close>

definition keeps :: "enc \<Rightarrow> panic + enc \<Rightarrow> bool" where
  "keeps e r \<longleftrightarrow>
    (\<exists>e'. r = Inr e' \<and> current e' = current e \<and> (alternate e \<longrightarrow> alternate e'))"

definition moved :: "enc \<Rightarrow> enc \<Rightarrow> bool" where
  "moved e x \<longleftrightarrow>
    current e + 1 \<le> current x \<and> current x \<le> current e + 4 \<and> (alternate e \<longrightarrow> alternate x)"

definition advances :: "enc \<Rightarrow> panic + enc \<Rightarrow> bool" where
  "advances e r \<longleftrightarrow> (\<exists>e'. r = Inr e' \<and> moved e e')"

lemma keeps_Inr: "keeps e (Inr e)"
  by (simp add: keeps_def)

lemma keeps_MetaphAdd1: "keeps e (MetaphAdd [a] e)"
  by (simp add: keeps_def MetaphAdd_def Let_def)

lemma keeps_MetaphAdd2: "keeps e (MetaphAdd [a, b] e)"
  by (simp add: keeps_def MetaphAdd_def Let_def)

lemma keeps_if: "keeps e a \<Longrightarrow> keeps e b \<Longrightarrow> keeps e (if c then a else b)"
  by simp

lemma moved_advance: "1 \<le> n \<Longrightarrow> n \<le> 4 \<Longrightarrow> moved e (advance n e)"
  by (simp add: moved_def advance_def)

lemma moved_if: "moved e a \<Longrightarrow> moved e b \<Longrightarrow> moved e (if c then a else b)"
  by simp

lemma advances_Inr: "moved e x \<Longrightarrow> advances e (Inr x)"
  by (simp add: advances_def)

lemma advances_comp: "1 \<le> n \<Longrightarrow> n \<le> 4 \<Longrightarrow> advances e ((Inr \<circ> advance n) e)"
  by (simp add: advances_def moved_advance)

lemma advances_if: "advances e a \<Longrightarrow> advances e b \<Longrightarrow> advances e (if c then a else b)"
  by simp

lemma advances_MetaphAdd1: "moved e x \<Longrightarrow> advances e (MetaphAdd [a] x)"
  by (simp add: advances_def moved_def MetaphAdd_def Let_def)

lemma advances_and_then:
  "keeps e r \<Longrightarrow> (\<And>e1. advances e1 (f e1)) \<Longrightarrow> advances e (and_then r f)"
  by (fastforce simp: keeps_def advances_def moved_def and_then_def)

lemmas adv_rules =
  advances_if advances_and_then advances_comp advances_Inr advances_MetaphAdd1
  keeps_if keeps_MetaphAdd1 keeps_MetaphAdd2 keeps_Inr moved_if moved_advance

lemma case_vowel_adv: "advances e (case_vowel v e)"
  unfolding case_vowel_def Let_def by (intro adv_rules) simp_all

lemma case_B_adv: "advances e (case_B v e)"
  unfolding case_B_def Let_def by (intro adv_rules) simp_all

lemma case_C_cedilla_adv: "advances e (case_C_cedilla v e)"
  unfolding case_C_cedilla_def Let_def by (intro adv_rules) simp_all

lemma case_C_adv: "advances e (case_C v e)"
  unfolding case_C_def Let_def by (intro adv_rules) simp_all

lemma case_D_adv: "advances e (case_D v e)"
  unfolding case_D_def Let_def by (intro adv_rules) simp_all

lemma case_F_adv: "advances e (case_F v e)"
  unfolding case_F_def Let_def by (intro adv_rules) simp_all

lemma case_G_adv: "advances e (case_G v e)"
  unfolding case_G_def Let_def by (intro adv_rules) simp_all

lemma case_H_adv: "advances e (case_H v e)"
  unfolding case_H_def Let_def by (intro adv_rules) simp_all

lemma case_J_adv: "advances e (case_J v e)"
  unfolding case_J_def Let_def by (intro adv_rules) simp_all

lemma case_K_adv: "advances e (case_K v e)"
  unfolding case_K_def Let_def by (intro adv_rules) simp_all

lemma case_L_adv: "advances e (case_L v e)"
  unfolding case_L_def Let_def by (intro adv_rules) simp_all

lemma case_M_adv: "advances e (case_M v e)"
  unfolding case_M_def Let_def by (intro adv_rules) simp_all

lemma case_N_adv: "advances e (case_N v e)"
  unfolding case_N_def Let_def by (intro adv_rules) simp_all

lemma case_N_tilde_adv: "advances e (case_N_tilde v e)"
  unfolding case_N_tilde_def Let_def by (intro adv_rules) simp_all

lemma case_P_adv: "advances e (case_P v e)"
  unfolding case_P_def Let_def by (intro adv_rules) simp_all

lemma case_Q_adv: "advances e (case_Q v e)"
  unfolding case_Q_def Let_def by (intro adv_rules) simp_all

lemma case_R_adv: "advances e (case_R v e)"
  unfolding case_R_def Let_def by (intro adv_rules) simp_all

lemma case_S_adv: "advances e (case_S v e)"
  unfolding case_S_def Let_def by (intro adv_rules) simp_all

lemma case_T_adv: "advances e (case_T v e)"
  unfolding case_T_def Let_def by (intro adv_rules) simp_all

lemma case_V_adv: "advances e (case_V v e)"
  unfolding case_V_def Let_def by (intro adv_rules) simp_all

lemma case_W_adv: "advances e (case_W v e)"
  unfolding case_W_def Let_def by (intro adv_rules) simp_all

lemma case_X_adv: "advances e (case_X v e)"
  unfolding case_X_def Let_def by (intro adv_rules) simp_all

lemma case_Z_adv: "advances e (case_Z v e)"
  unfolding case_Z_def Let_def by (intro adv_rules) simp_all

lemma step_advances: "advances e (step v e)"
  unfolding step_def Let_def
  by (intro advances_if case_vowel_adv case_B_adv case_C_cedilla_adv case_C_adv case_D_adv
      case_F_adv case_G_adv case_H_adv case_J_adv case_K_adv case_L_adv case_M_adv case_N_adv
      case_N_tilde_adv case_P_adv case_Q_adv case_R_adv case_S_adv case_T_adv case_V_adv
      case_W_adv case_X_adv case_Z_adv advances_Inr moved_advance) simp_all

lemma step_Inr: "\<exists>e'. step v e = Inr e' \<and> moved e e'"
  using step_advances [of e v] by (simp add: advances_def)

subsection \<open>The main loop and the function itself\<close>

text \<open>
  The main loop: it runs the body while \<open>loop_cond\<close> holds. A panic in the body ends the
  pass with that panic. The recursion is well founded because the body moves the cursor
  towards \<open>length_w\<close>.
\<close>

function main_loop :: "env \<Rightarrow> enc \<Rightarrow> panic + enc" where
  "main_loop v e =
    (if loop_cond v e then
       (case step v e of Inl p \<Rightarrow> Inl p | Inr e' \<Rightarrow> main_loop v e')
     else Inr e)"
  by pat_completeness auto
termination
proof (relation "measure (\<lambda>(v, e). nat (length_w v - current e))")
  show "wf (measure (\<lambda>(v, e). nat (length_w v - current e)))" by simp
next
  fix v e e'
  assume c: "loop_cond v e" and s: "step v e = Inr e'"
  from s step_Inr [of v e] have "moved e e'" by simp
  with c show "((v, e'), (v, e)) \<in> measure (\<lambda>(v, e). nat (length_w v - current e))"
    by (simp add: moved_def loop_cond_def)
qed

declare main_loop.simps [simp del]

text \<open>The set-up of \<open>DoubleMetaphone\<close>, after the early return for the empty word.\<close>

definition pad :: string where
  "pad = ''     ''"

definition init_env :: "(rune \<Rightarrow> rune) \<Rightarrow> string \<Rightarrow> int \<Rightarrow> env" where
  "init_env up w maxlen =
    (let len = int (length w);
         maxlength = (if maxlen < 1 then 4 else maxlen);
         word1 = ToUpper up w;
         word2 = word1 @ pad
     in \<lparr>word = word2, rword = runes word2, length_w = len, last_w = len - 1,
         maxlength = maxlength\<rparr>)"

definition init_enc :: enc where
  "init_enc = \<lparr>primary = [], secondary = [], alternate = False, current = 0\<rparr>"

text \<open>The two statements before the main loop: the silent first letter and the initial X.\<close>

definition prologue :: "env \<Rightarrow> panic + enc" where
  "prologue v =
    (let e1 = (if StringAt v 0 2 [''GN'', ''KN'', ''PN'', ''WR'', ''PS''] then advance 1 init_enc
               else init_enc)
     in if GetAt v 0 = rn CHR ''X'' then and_then (MetaphAdd [''S''] e1) (Inr \<circ> advance 1)
        else Inr e1)"

text \<open>The pass: the statements before the loop, then the loop. Its result is the final state.\<close>

definition run :: "env \<Rightarrow> panic + enc" where
  "run v = and_then (prologue v) (main_loop v)"

text \<open>The statements after the loop: truncation, and the secondary code only when
  \<open>alternate\<close> is set.\<close>

definition finish :: "env \<Rightarrow> enc \<Rightarrow> string \<times> string" where
  "finish v e =
    (let metaph = (if int (length (primary e)) > maxlength v
                   then take (nat (maxlength v)) (primary e) else primary e);
         metaph2 = (if alternate e then
                      (if int (length (secondary e)) > maxlength v
                       then take (nat (maxlength v)) (secondary e) else secondary e)
                    else [])
     in (metaph, metaph2))"

definition DoubleMetaphone :: "(rune \<Rightarrow> rune) \<Rightarrow> string \<Rightarrow> int \<Rightarrow> panic + (string \<times> string)" where
  "DoubleMetaphone up w maxlen =
    (if int (length w) < 1 then Inr ([], [])
     else
       let v = init_env up w maxlen
       in case run v of Inl p \<Rightarrow> Inl p | Inr e \<Rightarrow> Inr (finish v e))"

subsection \<open>The instrumented pass\<close>

text \<open>
  The instrumented pass: the states at the head of every iteration of the main loop, the
  last one being the state the loop exits with.
\<close>

function states :: "env \<Rightarrow> enc \<Rightarrow> enc list" where
  "states v e =
    e # (if loop_cond v e then
           (case step v e of Inl p \<Rightarrow> [] | Inr e' \<Rightarrow> states v e')
         else [])"
  by pat_completeness auto
termination
proof (relation "measure (\<lambda>(v, e). nat (length_w v - current e))")
  show "wf (measure (\<lambda>(v, e). nat (length_w v - current e)))" by simp
next
  fix v e e'
  assume c: "loop_cond v e" and s: "step v e = Inr e'"
  from s step_Inr [of v e] have "moved e e'" by simp
  with c show "((v, e'), (v, e)) \<in> measure (\<lambda>(v, e). nat (length_w v - current e))"
    by (simp add: moved_def loop_cond_def)
qed

declare states.simps [simp del]

definition pass_states :: "env \<Rightarrow> enc list" where
  "pass_states v = (case prologue v of Inl p \<Rightarrow> [] | Inr e \<Rightarrow> states v e)"

lemma states_not_Nil: "states v e \<noteq> []"
  by (subst states.simps) simp

lemma hd_states: "hd (states v e) = e"
  by (subst states.simps) simp

lemma main_loop_last: "main_loop v e = Inr (last (states v e))"
proof (induction v e rule: main_loop.induct)
  case (1 v e)
  show ?case
  proof (cases "loop_cond v e")
    case True
    obtain e1 where s: "step v e = Inr e1" using step_Inr by blast
    have "main_loop v e = main_loop v e1"
      using True s by (subst main_loop.simps) simp
    moreover have "states v e = e # states v e1"
      using True s by (subst states.simps) simp
    ultimately show ?thesis
      using "1.IH" [OF True s] by (simp add: states_not_Nil)
  next
    case False
    then show ?thesis
      by (subst main_loop.simps, subst states.simps) simp
  qed
qed

lemma states_exit: "\<not> loop_cond v (last (states v e))"
proof (induction v e rule: states.induct)
  case (1 v e)
  show ?case
  proof (cases "loop_cond v e")
    case True
    obtain e1 where s: "step v e = Inr e1" using step_Inr by blast
    have "states v e = e # states v e1"
      using True s by (subst states.simps) simp
    then show ?thesis
      using "1.IH" [OF True s] by (simp add: states_not_Nil)
  next
    case False
    then show ?thesis
      by (subst states.simps) simp
  qed
qed

lemma states_chain:
  "Suc i < length (states v e) \<Longrightarrow>
     loop_cond v (states v e ! i) \<and> step v (states v e ! i) = Inr (states v e ! Suc i)"
proof (induction v e arbitrary: i rule: states.induct)
  case (1 v e)
  show ?case
  proof (cases "loop_cond v e")
    case True
    obtain e1 where s: "step v e = Inr e1" using step_Inr by blast
    have eq: "states v e = e # states v e1"
      using True s by (subst states.simps) simp
    show ?thesis
    proof (cases i)
      case 0
      then show ?thesis
        using True s eq hd_states [of v e1] states_not_Nil [of v e1]
        by (simp add: hd_conv_nth)
    next
      case (Suc j)
      then have "Suc j < length (states v e1)"
        using "1.prems" eq by simp
      from "1.IH" [OF True s this] show ?thesis
        using eq Suc by simp
    qed
  next
    case False
    then have "states v e = [e]"
      by (subst states.simps) simp
    with "1.prems" show ?thesis by simp
  qed
qed

lemma states_increasing: "sorted_wrt (\<lambda>a b. current a < current b) (states v e)"
proof -
  have step_lt: "\<And>i. Suc i < length (states v e) \<Longrightarrow>
      current (states v e ! i) < current (states v e ! Suc i)"
  proof -
    fix i
    assume "Suc i < length (states v e)"
    from states_chain [OF this] step_Inr [of v "states v e ! i"]
    show "current (states v e ! i) < current (states v e ! Suc i)"
      by (auto simp: moved_def)
  qed
  have "sorted_wrt (<) (map current (states v e))"
    by (rule sorted_wrt_iff_nth_Suc_transp [THEN iffD2]) (auto simp: step_lt transp_def)
  then show ?thesis
    by (simp add: sorted_wrt_map)
qed

lemma prologue_Inr: "\<exists>e. prologue v = Inr e \<and> \<not> alternate e"
  by (simp add: prologue_def Let_def and_then_def MetaphAdd_def advance_def init_enc_def)

lemma run_last: "run v = Inr (last (pass_states v))"
  using prologue_Inr [of v] by (auto simp: run_def pass_states_def and_then_def main_loop_last)

lemma DoubleMetaphone_Inr: "\<exists>m m2. DoubleMetaphone up w L = Inr (m, m2)"
  by (cases "finish (init_env up w L) (last (pass_states (init_env up w L)))")
    (simp add: DoubleMetaphone_def Let_def run_last)

lemma maxlength_init_env: "1 \<le> maxlength (init_env up w L)"
  by (simp add: init_env_def Let_def)

lemma finish_bound:
  "1 \<le> maxlength v \<Longrightarrow>
     int (length (fst (finish v e))) \<le> maxlength v \<and> int (length (snd (finish v e))) \<le> maxlength v"
  by (simp add: finish_def Let_def)

subsection \<open>Facts about the decoding of UTF-8 and the pass\<close>

lemma DecodeRune_le: "snd (DecodeRune s) \<le> length s"
  by (cases s) (auto simp: Let_def split: list.splits)

lemma DecodeRune_append:
  "s \<noteq> [] \<Longrightarrow> rn a < 0x80 \<Longrightarrow> DecodeRune (s @ a # t) = DecodeRune s"
  by (cases s) (auto simp: Let_def byte_in_def split: list.splits)

lemma runes_append_ascii:
  "rn a < 0x80 \<Longrightarrow> runes (s @ a # t) = runes s @ runes (a # t)"
proof (induction s rule: runes.induct)
  case (1 s)
  show ?case
  proof (cases "s = []")
    case True
    then show ?thesis by (simp add: runes.simps [of "[]"])
  next
    case False
    have d: "DecodeRune (s @ a # t) = DecodeRune s"
      using False "1.prems" by (rule DecodeRune_append)
    have "runes (s @ a # t) =
        fst (DecodeRune s) # runes (drop (snd (DecodeRune s)) s @ a # t)"
      using False DecodeRune_le [of s] by (subst runes.simps) (simp add: d)
    also have "\<dots> = fst (DecodeRune s) # (runes (drop (snd (DecodeRune s)) s) @ runes (a # t))"
      using "1.IH" [OF False "1.prems"] by simp
    also have "\<dots> = runes s @ runes (a # t)"
      using False by (subst (2) runes.simps) simp
    finally show ?thesis .
  qed
qed

lemma runes_pad: "runes pad = [32, 32, 32, 32, 32]"
  by (simp add: pad_def runes.simps)

lemma rword_init_env:
  "rword (init_env up w L) = runes (ToUpper up w) @ [32, 32, 32, 32, 32]"
  using runes_append_ascii [of "CHR '' ''" "ToUpper up w" "''    ''"] runes_pad
  by (simp add: init_env_def Let_def pad_def)

lemma dispatch_runes_eq:
  "dispatch_runes =
    {199, 209, 65, 69, 73, 79, 85, 89, 66, 67, 68, 70, 71, 72, 74, 75, 76, 77, 78, 80, 81, 82,
     83, 84, 86, 87, 88, 90}"
  by (simp add: dispatch_runes_def runes.simps)

lemma step_default: "GetAt v (current e) \<notin> dispatch_runes \<Longrightarrow> step v e = Inr (advance 1 e)"
  by (simp add: step_def Let_def dispatch_runes_eq)

lemma GetAt_cases: "GetAt v at = 0 \<or> GetAt v at \<in> set (rword v)"
  by (auto simp: GetAt_def rwordLen_def)

lemma main_loop_silent:
  "(\<And>at. GetAt v at \<notin> dispatch_runes) \<Longrightarrow>
     primary e = [] \<and> secondary e = [] \<and> \<not> alternate e \<Longrightarrow>
     \<exists>e'. main_loop v e = Inr e' \<and> primary e' = [] \<and> secondary e' = [] \<and> \<not> alternate e'"
proof (induction v e rule: main_loop.induct)
  case (1 v e)
  show ?case
  proof (cases "loop_cond v e")
    case True
    have s: "step v e = Inr (advance 1 e)"
      using "1.prems"(1) by (rule step_default)
    have "primary (advance 1 e) = [] \<and> secondary (advance 1 e) = [] \<and> \<not> alternate (advance 1 e)"
      using "1.prems"(2) by (simp add: advance_def)
    from "1.IH" [OF True s "1.prems"(1) this] show ?thesis
      using True s by (subst main_loop.simps) simp
  next
    case False
    then show ?thesis
      using "1.prems"(2) by (subst main_loop.simps) simp
  qed
qed

lemma flag_flip:
  "xs \<noteq> [] \<Longrightarrow> \<not> P (hd xs) \<Longrightarrow> P (last xs) \<Longrightarrow>
     \<exists>i. Suc i < length xs \<and> \<not> P (xs ! i) \<and> P (xs ! Suc i)"
proof (induction xs)
  case Nil
  then show ?case by simp
next
  case (Cons x xs)
  show ?case
  proof (cases "xs = []")
    case True
    with Cons.prems show ?thesis by simp
  next
    case False
    show ?thesis
    proof (cases "P (hd xs)")
      case True
      with False Cons.prems have "Suc 0 < length (x # xs) \<and> \<not> P ((x # xs) ! 0) \<and> P ((x # xs) ! Suc 0)"
        by (simp add: hd_conv_nth)
      then show ?thesis by blast
    next
      case nP: False
      from Cons.IH [OF False nP] Cons.prems False
      obtain i where "Suc i < length xs" "\<not> P (xs ! i)" "P (xs ! Suc i)"
        by auto
      then have "Suc (Suc i) < length (x # xs) \<and> \<not> P ((x # xs) ! Suc i) \<and> P ((x # xs) ! Suc (Suc i))"
        by simp
      then show ?thesis by blast
    qed
  qed
qed

lemma pass_states_prologue:
  "\<exists>e0. prologue v = Inr e0 \<and> \<not> alternate e0 \<and> pass_states v = states v e0"
  using prologue_Inr [of v] by (auto simp: pass_states_def)

lemma pass_states_chain:
  "Suc i < length (pass_states v) \<Longrightarrow>
     loop_cond v (pass_states v ! i) \<and> step v (pass_states v ! i) = Inr (pass_states v ! Suc i)"
  using pass_states_prologue [of v] states_chain [of i v] by auto

lemma MetaphAdd_sets_alternate:
  assumes "MetaphAdd s e = Inr e'" and "alternate e'" and "\<not> alternate e"
  shows "length s = 2 \<and> s ! 1 \<noteq> []"
proof (cases s)
  case Nil
  with assms show ?thesis by (simp add: MetaphAdd_def)
next
  case (Cons a t)
  show ?thesis
  proof (cases t)
    case Nil
    with Cons assms show ?thesis by (auto simp: MetaphAdd_def Let_def)
  next
    case (Cons b u)
    show ?thesis
    proof (cases u)
      case Nil
      with \<open>s = a # t\<close> \<open>t = b # u\<close> assms show ?thesis
        by (auto simp: MetaphAdd_def Let_def split: if_splits)
    next
      case (Cons c u')
      with \<open>s = a # t\<close> \<open>t = b # u\<close> assms show ?thesis
        by (simp add: MetaphAdd_def)
    qed
  qed
qed

lemma GetAt_in_range:
  "\<not> (at < 0 \<or> at \<ge> rwordLen v) \<Longrightarrow> index_rune (rword v) at = Inr (GetAt v at)"
  by (simp add: index_rune_def GetAt_def rwordLen_def)

lemma StringAt_in_range:
  "\<not> (start < 0 \<or> start + int len \<ge> rwordLen v) \<Longrightarrow>
     slice_runes (rword v) start (start + int len) = Inr (take len (drop (nat start) (rword v)))"
  by (simp add: slice_runes_def rwordLen_def)

lemma StringAt_out_of_range:
  "start < 0 \<or> rwordLen v < start + int len \<Longrightarrow> \<not> StringAt v start len ss"
  by (auto simp: StringAt_def)

lemma MetaphAdd_arity_iff:
  "MetaphAdd s e = Inl p \<longleftrightarrow> p = MetaphAdd_arity \<and> (length s < 1 \<or> 2 < length s)"
  by (auto simp: MetaphAdd_def Let_def)

lemma length_runes_le: "length (runes s) \<le> length s"
proof (induction s rule: runes.induct)
  case (1 s)
  show ?case
  proof (cases "s = []")
    case True
    then show ?thesis by (simp add: runes.simps [of "[]"])
  next
    case False
    have "1 \<le> snd (DecodeRune s)"
      using False by (rule DecodeRune_width)
    moreover have "length (runes s) = Suc (length (runes (drop (snd (DecodeRune s)) s)))"
      using False by (subst runes.simps) simp
    moreover have "1 \<le> length s"
      using False by (cases s) simp_all
    moreover have "length (runes (drop (snd (DecodeRune s)) s)) \<le> length s - snd (DecodeRune s)"
      using "1.IH" [OF False] by simp
    ultimately show ?thesis
      by arith
  qed
qed

subsection \<open>What an iteration appends to the two buffers\<close>

text \<open>
  Every iteration appends a string \<open>p\<close> to \<open>primary\<close> and a string \<open>s\<close> to \<open>secondary\<close>.
  Either the two are the same and \<open>alternate\<close> keeps its value, or they differ and
  \<open>alternate\<close> is set: the flag records exactly the divergent emissions. \<open>emits\<close> says so
  for a piece of an iteration, \<open>moves\<close> and \<open>same\<close> for the pieces that only move the cursor.
\<close>

definition same :: "enc \<Rightarrow> enc \<Rightarrow> bool" where
  "same e x \<longleftrightarrow>
    primary x = primary e \<and> secondary x = secondary e \<and> alternate x = alternate e"

definition moves :: "enc \<Rightarrow> panic + enc \<Rightarrow> bool" where
  "moves e r \<longleftrightarrow> (\<exists>e'. r = Inr e' \<and> same e e')"

definition emits :: "enc \<Rightarrow> panic + enc \<Rightarrow> bool" where
  "emits e r \<longleftrightarrow>
    (\<exists>e' p s. r = Inr e' \<and> primary e' = primary e @ p \<and> secondary e' = secondary e @ s \<and>
       (p = s \<and> alternate e' = alternate e \<or> p \<noteq> s \<and> alternate e'))"

lemma same_refl: "same e e"
  by (simp add: same_def)

lemma same_advance: "same e (advance n e)"
  by (simp add: same_def advance_def)

lemma same_if: "same e a \<Longrightarrow> same e b \<Longrightarrow> same e (if c then a else b)"
  by simp

lemma moves_Inr: "same e x \<Longrightarrow> moves e (Inr x)"
  by (simp add: moves_def)

lemma moves_comp: "moves e ((Inr \<circ> advance n) e)"
  by (simp add: moves_def same_advance)

lemma moves_if: "moves e a \<Longrightarrow> moves e b \<Longrightarrow> moves e (if c then a else b)"
  by simp

lemma emits_Inr: "same e x \<Longrightarrow> emits e (Inr x)"
  by (simp add: emits_def same_def)

lemma emits_if: "emits e a \<Longrightarrow> emits e b \<Longrightarrow> emits e (if c then a else b)"
  by simp

lemma emits_MetaphAdd1: "same e x \<Longrightarrow> emits e (MetaphAdd [a] x)"
  by (simp add: emits_def same_def MetaphAdd_def Let_def)

lemma emits_MetaphAdd2:
  "b \<noteq> [] \<Longrightarrow> a \<noteq> (if b ! 0 = CHR '' '' then [] else b) \<Longrightarrow> emits e (MetaphAdd [a, b] e)"
  by (auto simp: emits_def MetaphAdd_def Let_def)

lemma emits_and_then:
  "emits e r \<Longrightarrow> (\<And>e1. moves e1 (f e1)) \<Longrightarrow> emits e (and_then r f)"
proof -
  assume a: "emits e r" and b: "\<And>e1. moves e1 (f e1)"
  from a obtain e1 p s where r: "r = Inr e1" and ps: "primary e1 = primary e @ p"
      "secondary e1 = secondary e @ s"
      "p = s \<and> alternate e1 = alternate e \<or> p \<noteq> s \<and> alternate e1"
    by (auto simp: emits_def)
  from b [of e1] obtain e' where f: "f e1 = Inr e'" and s: "same e1 e'"
    by (auto simp: moves_def)
  have "and_then r f = Inr e'"
    using r f by (simp add: and_then_def)
  moreover have "primary e' = primary e @ p" "secondary e' = secondary e @ s"
      "p = s \<and> alternate e' = alternate e \<or> p \<noteq> s \<and> alternate e'"
    using ps s by (auto simp: same_def)
  ultimately show ?thesis
    unfolding emits_def by blast
qed

lemmas emit_rules =
  emits_if emits_and_then emits_Inr emits_MetaphAdd1 emits_MetaphAdd2
  moves_if moves_comp moves_Inr same_if same_advance same_refl

lemma case_vowel_emits: "emits e (case_vowel v e)"
  unfolding case_vowel_def Let_def by (intro emit_rules; simp)
lemma case_B_emits: "emits e (case_B v e)"
  unfolding case_B_def Let_def by (intro emit_rules; simp)
lemma case_C_cedilla_emits: "emits e (case_C_cedilla v e)"
  unfolding case_C_cedilla_def Let_def by (intro emit_rules; simp)
lemma case_C_emits: "emits e (case_C v e)"
  unfolding case_C_def Let_def by (intro emit_rules; simp)
lemma case_D_emits: "emits e (case_D v e)"
  unfolding case_D_def Let_def by (intro emit_rules; simp)
lemma case_F_emits: "emits e (case_F v e)"
  unfolding case_F_def Let_def by (intro emit_rules; simp)
lemma case_G_emits: "emits e (case_G v e)"
  unfolding case_G_def Let_def by (intro emit_rules; simp)
lemma case_H_emits: "emits e (case_H v e)"
  unfolding case_H_def Let_def by (intro emit_rules; simp)
lemma case_J_emits: "emits e (case_J v e)"
  unfolding case_J_def Let_def by (intro emit_rules; simp)
lemma case_K_emits: "emits e (case_K v e)"
  unfolding case_K_def Let_def by (intro emit_rules; simp)
lemma case_L_emits: "emits e (case_L v e)"
  unfolding case_L_def Let_def by (intro emit_rules; simp)
lemma case_M_emits: "emits e (case_M v e)"
  unfolding case_M_def Let_def by (intro emit_rules; simp)
lemma case_N_emits: "emits e (case_N v e)"
  unfolding case_N_def Let_def by (intro emit_rules; simp)
lemma case_N_tilde_emits: "emits e (case_N_tilde v e)"
  unfolding case_N_tilde_def Let_def by (intro emit_rules; simp)
lemma case_P_emits: "emits e (case_P v e)"
  unfolding case_P_def Let_def by (intro emit_rules; simp)
lemma case_Q_emits: "emits e (case_Q v e)"
  unfolding case_Q_def Let_def by (intro emit_rules; simp)
lemma case_R_emits: "emits e (case_R v e)"
  unfolding case_R_def Let_def by (intro emit_rules; simp)
lemma case_S_emits: "emits e (case_S v e)"
  unfolding case_S_def Let_def by (intro emit_rules; simp)
lemma case_T_emits: "emits e (case_T v e)"
  unfolding case_T_def Let_def by (intro emit_rules; simp)
lemma case_V_emits: "emits e (case_V v e)"
  unfolding case_V_def Let_def by (intro emit_rules; simp)
lemma case_X_emits: "emits e (case_X v e)"
  unfolding case_X_def Let_def by (intro emit_rules; simp)
lemma case_Z_emits: "emits e (case_Z v e)"
  unfolding case_Z_def Let_def by (intro emit_rules; simp)

lemma case_W_emits: "emits e (case_W v e)"
  unfolding case_W_def Let_def
  by (simp add: emits_def and_then_def MetaphAdd_def advance_def Let_def)

lemma step_emits: "emits e (step v e)"
  unfolding step_def Let_def
  by (intro emits_if case_vowel_emits case_B_emits case_C_cedilla_emits case_C_emits case_D_emits
      case_F_emits case_G_emits case_H_emits case_J_emits case_K_emits case_L_emits case_M_emits
      case_N_emits case_N_tilde_emits case_P_emits case_Q_emits case_R_emits case_S_emits
      case_T_emits case_V_emits case_W_emits case_X_emits case_Z_emits emits_Inr same_advance)

lemma step_dichotomy:
  "\<exists>e' p s. step v e = Inr e' \<and> primary e' = primary e @ p \<and> secondary e' = secondary e @ s \<and>
     (p = s \<and> alternate e' = alternate e \<or> p \<noteq> s \<and> alternate e')"
  using step_emits [of e v] by (simp add: emits_def)

lemma prologue_same_codes:
  "\<exists>e0. prologue v = Inr e0 \<and> \<not> alternate e0 \<and> primary e0 = secondary e0"
  by (simp add: prologue_def Let_def and_then_def MetaphAdd_def advance_def init_enc_def)

section \<open>The claims about the encoder\<close>

text \<open>
  In every statement below \<open>up\<close> is the Unicode upper-case table; a statement with \<open>up\<close>
  free holds for every table. A closed instance takes \<open>id\<close> for it where the word is
  ASCII, since \<open>ToUpper\<close> does not consult the table for an ASCII word.
\<close>

text \<open>
  Claim C1. With max length 4, \<open>DoubleMetaphone("knewmoanya", 4)\<close> and
  \<open>DoubleMetaphone("pneumonia", 4)\<close> both return the primary code \<open>NMN\<close>; with max length 6
  both still return primary \<open>NMN\<close> and an empty secondary code, and the pass ends with
  \<open>alternate\<close> unset: no rule diverged.
\<close>

theorem C1_reference_vectors:
  "DoubleMetaphone up ''knewmoanya'' 4 = Inr (''NMN'', []) \<and>
   DoubleMetaphone up ''pneumonia'' 4 = Inr (''NMN'', []) \<and>
   DoubleMetaphone up ''knewmoanya'' 6 = Inr (''NMN'', []) \<and>
   DoubleMetaphone up ''pneumonia'' 6 = Inr (''NMN'', []) \<and>
   map_sum id alternate (run (init_env up ''knewmoanya'' 6)) = Inr False \<and>
   map_sum id alternate (run (init_env up ''pneumonia'' 6)) = Inr False"
  by code_simp

theorem C1_reference_vectors_witness:
  "DoubleMetaphone id ''knewmoanya'' 4 = Inr (''NMN'', []) \<and>
   DoubleMetaphone id ''pneumonia'' 6 = Inr (''NMN'', [])"
  using C1_reference_vectors [of id] by simp

text \<open>
  Claim C2. For every word \<open>w\<close> and every max length \<open>L \<ge> 1\<close>, \<open>DoubleMetaphone\<close> returns
  (it does not panic) and both returned strings have at most \<open>L\<close> bytes.
\<close>

theorem C2_length_bound:
  "1 \<le> L \<Longrightarrow>
     \<exists>m m2. DoubleMetaphone up w L = Inr (m, m2) \<and> int (length m) \<le> L \<and> int (length m2) \<le> L"
proof -
  assume L: "1 \<le> L"
  then have ml: "maxlength (init_env up w L) = L"
    by (simp add: init_env_def Let_def)
  show ?thesis
  proof (cases "int (length w) < 1")
    case True
    then show ?thesis using L by (simp add: DoubleMetaphone_def)
  next
    case False
    let ?v = "init_env up w L"
    let ?e = "last (pass_states ?v)"
    have "DoubleMetaphone up w L = Inr (fst (finish ?v ?e), snd (finish ?v ?e))"
      using False by (simp add: DoubleMetaphone_def Let_def run_last)
    moreover have "int (length (fst (finish ?v ?e))) \<le> L \<and> int (length (snd (finish ?v ?e))) \<le> L"
      using finish_bound [of ?v ?e] L ml by simp
    ultimately show ?thesis by blast
  qed
qed

theorem C2_length_bound_witness:
  "(1::int) \<le> 2 \<and>
   (\<exists>m m2. DoubleMetaphone id ''Thomas'' 2 = Inr (m, m2) \<and> int (length m) \<le> 2 \<and>
      int (length m2) \<le> 2)"
  using C2_length_bound [of 2 id "''Thomas''"] by simp

text \<open>
  Claim C6. For every word \<open>w\<close> and every max length \<open>L < 1\<close>, \<open>DoubleMetaphone(w, L)\<close>
  returns the same pair as \<open>DoubleMetaphone(w, 4)\<close>, and it is a pair of codes, not an error.
\<close>

theorem C6_maxlength_default:
  "L < 1 \<Longrightarrow>
     DoubleMetaphone up w L = DoubleMetaphone up w 4 \<and>
     (\<exists>m m2. DoubleMetaphone up w L = Inr (m, m2))"
proof -
  assume "L < 1"
  then have "init_env up w L = init_env up w 4"
    by (simp add: init_env_def)
  then have "DoubleMetaphone up w L = DoubleMetaphone up w 4"
    by (simp add: DoubleMetaphone_def)
  then show ?thesis
    using DoubleMetaphone_Inr [of up w L] by simp
qed

theorem C6_maxlength_default_witness:
  "(0::int) < 1 \<and> DoubleMetaphone id ''Thomas'' 0 = DoubleMetaphone id ''Thomas'' 4 \<and>
   (\<exists>m m2. DoubleMetaphone id ''Thomas'' 0 = Inr (m, m2))"
proof -
  have "(0::int) < 1" by simp
  from this C6_maxlength_default [OF this, of id "''Thomas''"] show ?thesis by blast
qed

text \<open>
  Claim C3. The secondary code is non-empty only if some rule fired a divergent emission
  during the pass: some iteration found \<open>alternate\<close> unset, set it and appended different
  strings to \<open>primary\<close> and \<open>secondary\<close>. A word for which no divergent rule fires yields
  the empty secondary code: that is so when no state of the pass has the flag set, and when
  every iteration appends the same string to both buffers. The flag and the emissions go
  together: the statements before the loop leave the flag unset and the buffers equal,
  every iteration either appends the same string to both buffers and keeps the flag or
  appends different strings and sets it, and \<open>MetaphAdd\<close> sets the flag only for a non-empty
  second token. The states of the pass are \<open>pass_states\<close>.
\<close>

theorem C3_secondary_needs_divergence:
  fixes up w L
  defines "v \<equiv> init_env up w L"
  assumes dm: "DoubleMetaphone up w L = Inr (m, m2)"
  shows "(m2 \<noteq> [] \<longrightarrow>
          (\<exists>i p s. Suc i < length (pass_states v) \<and> \<not> alternate (pass_states v ! i) \<and>
               step v (pass_states v ! i) = Inr (pass_states v ! Suc i) \<and>
               alternate (pass_states v ! Suc i) \<and>
               primary (pass_states v ! Suc i) = primary (pass_states v ! i) @ p \<and>
               secondary (pass_states v ! Suc i) = secondary (pass_states v ! i) @ s \<and>
               p \<noteq> s)) \<and>
         ((\<forall>e \<in> set (pass_states v). \<not> alternate e) \<longrightarrow> m2 = []) \<and>
         ((\<forall>i. Suc i < length (pass_states v) \<longrightarrow>
             (\<exists>p. primary (pass_states v ! Suc i) = primary (pass_states v ! i) @ p \<and>
                  secondary (pass_states v ! Suc i) = secondary (pass_states v ! i) @ p))
          \<longrightarrow> m2 = []) \<and>
         (\<exists>e0. prologue v = Inr e0 \<and> hd (pass_states v) = e0 \<and> \<not> alternate e0 \<and>
            primary e0 = secondary e0) \<and>
         (\<forall>e. \<exists>e' p s. step v e = Inr e' \<and> primary e' = primary e @ p \<and>
            secondary e' = secondary e @ s \<and>
            (p = s \<and> alternate e' = alternate e \<or> p \<noteq> s \<and> alternate e')) \<and>
         (\<forall>s e e'. MetaphAdd s e = Inr e' \<and> alternate e' \<and> \<not> alternate e \<longrightarrow>
            length s = 2 \<and> s ! 1 \<noteq> [])"
proof -
  let ?st = "pass_states v"
  obtain e0 where e0: "prologue v = Inr e0" "\<not> alternate e0" "primary e0 = secondary e0"
    using prologue_same_codes [of v] by blast
  then have ps: "?st = states v e0"
    by (simp add: pass_states_def)
  have ne: "?st \<noteq> []"
    using ps states_not_Nil by simp
  have hd: "hd ?st = e0"
    using ps hd_states by simp
  have fin: "m2 \<noteq> [] \<Longrightarrow> alternate (last ?st)"
  proof -
    assume m2: "m2 \<noteq> []"
    then have "w \<noteq> []"
      using dm by (auto simp: DoubleMetaphone_def)
    then have "(m, m2) = finish v (last ?st)"
      using dm by (simp add: DoubleMetaphone_def Let_def run_last v_def)
    then show ?thesis
      using m2 by (auto simp: finish_def Let_def split: if_splits)
  qed
  have flip: "\<exists>p s. primary (?st ! Suc i) = primary (?st ! i) @ p \<and>
        secondary (?st ! Suc i) = secondary (?st ! i) @ s \<and> p \<noteq> s"
    if i: "Suc i < length ?st" and n: "\<not> alternate (?st ! i)" and a: "alternate (?st ! Suc i)"
    for i
  proof -
    from pass_states_chain [OF i] have st: "step v (?st ! i) = Inr (?st ! Suc i)" by simp
    from step_dichotomy [of v "?st ! i"] st
    obtain p s where "primary (?st ! Suc i) = primary (?st ! i) @ p"
        "secondary (?st ! Suc i) = secondary (?st ! i) @ s"
        "p = s \<and> alternate (?st ! Suc i) = alternate (?st ! i) \<or> p \<noteq> s \<and> alternate (?st ! Suc i)"
      by auto
    with n a show ?thesis by blast
  qed
  have exi: "\<exists>i. Suc i < length ?st \<and> \<not> alternate (?st ! i) \<and> alternate (?st ! Suc i)"
    if "m2 \<noteq> []"
    using flag_flip [of ?st alternate] ne hd e0(2) fin [OF that] by simp
  have a: "m2 \<noteq> [] \<longrightarrow>
          (\<exists>i p s. Suc i < length ?st \<and> \<not> alternate (?st ! i) \<and>
               step v (?st ! i) = Inr (?st ! Suc i) \<and>
               alternate (?st ! Suc i) \<and>
               primary (?st ! Suc i) = primary (?st ! i) @ p \<and>
               secondary (?st ! Suc i) = secondary (?st ! i) @ s \<and>
               p \<noteq> s)"
  proof
    assume "m2 \<noteq> []"
    from exi [OF this] obtain i where i: "Suc i < length ?st" "\<not> alternate (?st ! i)"
        "alternate (?st ! Suc i)"
      by blast
    from flip [OF i] obtain p s where "primary (?st ! Suc i) = primary (?st ! i) @ p"
        "secondary (?st ! Suc i) = secondary (?st ! i) @ s" "p \<noteq> s"
      by blast
    with i pass_states_chain [OF i(1)]
    show "\<exists>i p s. Suc i < length ?st \<and> \<not> alternate (?st ! i) \<and>
               step v (?st ! i) = Inr (?st ! Suc i) \<and>
               alternate (?st ! Suc i) \<and>
               primary (?st ! Suc i) = primary (?st ! i) @ p \<and>
               secondary (?st ! Suc i) = secondary (?st ! i) @ s \<and>
               p \<noteq> s"
      by blast
  qed
  have b: "(\<forall>e \<in> set ?st. \<not> alternate e) \<longrightarrow> m2 = []"
    using fin ne last_in_set by blast
  have c: "(\<forall>i. Suc i < length ?st \<longrightarrow>
             (\<exists>p. primary (?st ! Suc i) = primary (?st ! i) @ p \<and>
                  secondary (?st ! Suc i) = secondary (?st ! i) @ p))
          \<longrightarrow> m2 = []"
  proof (intro impI, rule ccontr)
    assume same: "\<forall>i. Suc i < length ?st \<longrightarrow>
             (\<exists>p. primary (?st ! Suc i) = primary (?st ! i) @ p \<and>
                  secondary (?st ! Suc i) = secondary (?st ! i) @ p)"
      and "m2 \<noteq> []"
    from exi [OF this(2)] obtain i where i: "Suc i < length ?st" "\<not> alternate (?st ! i)"
        "alternate (?st ! Suc i)"
      by blast
    from flip [OF i] obtain p s where d: "primary (?st ! Suc i) = primary (?st ! i) @ p"
        "secondary (?st ! Suc i) = secondary (?st ! i) @ s" "p \<noteq> s"
      by blast
    from same i(1) obtain q where "primary (?st ! Suc i) = primary (?st ! i) @ q"
        "secondary (?st ! Suc i) = secondary (?st ! i) @ q"
      by blast
    with d show False by simp
  qed
  have d: "\<exists>e0. prologue v = Inr e0 \<and> hd ?st = e0 \<and> \<not> alternate e0 \<and> primary e0 = secondary e0"
    using e0 hd by blast
  have e: "\<forall>e. \<exists>e' p s. step v e = Inr e' \<and> primary e' = primary e @ p \<and>
            secondary e' = secondary e @ s \<and>
            (p = s \<and> alternate e' = alternate e \<or> p \<noteq> s \<and> alternate e')"
    using step_dichotomy by blast
  have f: "\<forall>s e e'. MetaphAdd s e = Inr e' \<and> alternate e' \<and> \<not> alternate e \<longrightarrow>
            length s = 2 \<and> s ! 1 \<noteq> []"
    using MetaphAdd_sets_alternate by blast
  from a b c d e f show ?thesis by blast
qed

theorem C3_secondary_needs_divergence_witness:
  "DoubleMetaphone id ''J'' 4 = Inr (''J'', ''A'') \<and>
   map (\<lambda>e. (primary e, secondary e, alternate e)) (pass_states (init_env id ''J'' 4)) =
     [([], [], False), (''J'', ''A'', True)] \<and>
   (\<exists>i p s. Suc i < length (pass_states (init_env id ''J'' 4)) \<and>
        \<not> alternate (pass_states (init_env id ''J'' 4) ! i) \<and>
        alternate (pass_states (init_env id ''J'' 4) ! Suc i) \<and>
        primary (pass_states (init_env id ''J'' 4) ! Suc i) =
          primary (pass_states (init_env id ''J'' 4) ! i) @ p \<and>
        secondary (pass_states (init_env id ''J'' 4) ! Suc i) =
          secondary (pass_states (init_env id ''J'' 4) ! i) @ s \<and>
        p \<noteq> s)"
proof -
  have dm: "DoubleMetaphone id ''J'' 4 = Inr (''J'', ''A'')"
    by code_simp
  have tr: "map (\<lambda>e. (primary e, secondary e, alternate e)) (pass_states (init_env id ''J'' 4)) =
     [([], [], False), (''J'', ''A'', True)]"
    by code_simp
  have "''A'' \<noteq> ([] :: string)" by simp
  with C3_secondary_needs_divergence [OF dm] dm tr show ?thesis
    by blast
qed

text \<open>
  Claim C8. For every word and every max length the cursor strictly increases from each
  iteration of the main loop to the next (every iteration, from any state, moves it forward
  by at least 1), the pass ends with a final state, and in that state the cursor has reached
  \<open>len(word)\<close> or both buffers have reached \<open>maxlength\<close>; before that the loop condition
  held at every iteration. \<open>len(word)\<close> is the byte length of the word as passed in, which
  is at least its number of runes.
\<close>

theorem C8_cursor_monotone:
  fixes up w L
  defines "v \<equiv> init_env up w L"
  shows "length_w v = int (length w) \<and> int (length (runes w)) \<le> length_w v \<and>
         sorted_wrt (\<lambda>a b. current a < current b) (pass_states v) \<and>
         (\<forall>i. Suc i < length (pass_states v) \<longrightarrow>
            loop_cond v (pass_states v ! i) \<and>
            step v (pass_states v ! i) = Inr (pass_states v ! Suc i) \<and>
            current (pass_states v ! i) + 1 \<le> current (pass_states v ! Suc i)) \<and>
         (\<exists>e'. run v = Inr e' \<and> pass_states v \<noteq> [] \<and> e' = last (pass_states v) \<and>
            (length_w v \<le> current e' \<or>
             (maxlength v \<le> int (length (primary e')) \<and>
              maxlength v \<le> int (length (secondary e'))))) \<and>
         (\<exists>e'. step v e = Inr e' \<and> current e + 1 \<le> current e')"
proof -
  obtain e0 where e0: "pass_states v = states v e0"
    using pass_states_prologue [of v] by blast
  have a: "length_w v = int (length w) \<and> int (length (runes w)) \<le> length_w v"
    using length_runes_le [of w] by (simp add: v_def init_env_def Let_def)
  have b: "sorted_wrt (\<lambda>a b. current a < current b) (pass_states v)"
    using e0 states_increasing by simp
  have c: "\<forall>i. Suc i < length (pass_states v) \<longrightarrow>
            loop_cond v (pass_states v ! i) \<and>
            step v (pass_states v ! i) = Inr (pass_states v ! Suc i) \<and>
            current (pass_states v ! i) + 1 \<le> current (pass_states v ! Suc i)"
  proof (intro allI impI)
    fix i
    assume i: "Suc i < length (pass_states v)"
    from pass_states_chain [OF i] step_Inr [of v "pass_states v ! i"]
    show "loop_cond v (pass_states v ! i) \<and>
            step v (pass_states v ! i) = Inr (pass_states v ! Suc i) \<and>
            current (pass_states v ! i) + 1 \<le> current (pass_states v ! Suc i)"
      by (auto simp: moved_def)
  qed
  have ne: "pass_states v \<noteq> []"
    using e0 states_not_Nil by simp
  have "\<not> loop_cond v (last (pass_states v))"
    using e0 states_exit by simp
  then have d: "\<exists>e'. run v = Inr e' \<and> pass_states v \<noteq> [] \<and> e' = last (pass_states v) \<and>
            (length_w v \<le> current e' \<or>
             (maxlength v \<le> int (length (primary e')) \<and>
              maxlength v \<le> int (length (secondary e'))))"
    using ne run_last [of v] by (auto simp: loop_cond_def)
  have e: "\<exists>e'. step v e = Inr e' \<and> current e + 1 \<le> current e'"
    using step_Inr [of v e] by (auto simp: moved_def)
  from a b c d e show ?thesis by blast
qed

theorem C8_cursor_monotone_witness:
  "map current (pass_states (init_env id ''Thomas'' 4)) = [0, 2, 3, 4, 5, 6] \<and>
   sorted_wrt (\<lambda>a b. current a < current b) (pass_states (init_env id ''Thomas'' 4)) \<and>
   length_w (init_env id ''Thomas'' 4) = 6"
proof -
  have "map current (pass_states (init_env id ''Thomas'' 4)) = [0, 2, 3, 4, 5, 6]"
    by code_simp
  with C8_cursor_monotone [where up=id and w="''Thomas''" and L=4 and e=init_enc] show ?thesis
    by simp
qed

text \<open>
  Claim C9. \<open>DoubleMetaphone\<close> never panics, for any word and max length: the statements
  before the loop, every iteration and the loop itself yield a state; \<open>MetaphAdd\<close> panics
  exactly when it gets no token or more than two, which no call in the encoder does;
  \<open>GetAt\<close> and \<open>IsVowel\<close> answer 0 and false for every index out of range and
  \<open>StringAt\<close> answers false for every window that leaves \<open>rword\<close>; past their guards the
  index and the slice expression are in range.
\<close>

theorem C9_never_panics:
  "(\<exists>m m2. DoubleMetaphone up w L = Inr (m, m2)) \<and>
   (\<exists>e'. prologue v = Inr e') \<and> (\<exists>e'. step v e = Inr e') \<and> (\<exists>e'. main_loop v e = Inr e') \<and>
   (MetaphAdd s e = Inl p \<longleftrightarrow> p = MetaphAdd_arity \<and> (length s < 1 \<or> 2 < length s)) \<and>
   (at < 0 \<or> rwordLen v \<le> at \<longrightarrow> GetAt v at = 0 \<and> \<not> IsVowel v at) \<and>
   (\<not> (at < 0 \<or> rwordLen v \<le> at) \<longrightarrow> index_rune (rword v) at = Inr (GetAt v at)) \<and>
   (start < 0 \<or> rwordLen v < start + int len \<longrightarrow> \<not> StringAt v start len ss) \<and>
   (\<not> (start < 0 \<or> rwordLen v \<le> start + int len) \<longrightarrow>
      slice_runes (rword v) start (start + int len) = Inr (take len (drop (nat start) (rword v))))"
proof -
  have a: "\<exists>m m2. DoubleMetaphone up w L = Inr (m, m2)"
    by (rule DoubleMetaphone_Inr)
  have b: "\<exists>e'. prologue v = Inr e'"
    using prologue_Inr [of v] by blast
  have c: "\<exists>e'. step v e = Inr e'"
    using step_Inr [of v e] by blast
  have d: "\<exists>e'. main_loop v e = Inr e'"
    by (simp add: main_loop_last)
  have f: "at < 0 \<or> rwordLen v \<le> at \<longrightarrow> GetAt v at = 0 \<and> \<not> IsVowel v at"
    by (auto simp: GetAt_def IsVowel_def)
  from a b c d f MetaphAdd_arity_iff [of s e p] GetAt_in_range [of at v]
    StringAt_out_of_range [where start=start and v=v and len=len and ss=ss]
    StringAt_in_range [where start=start and v=v and len=len]
  show ?thesis by blast
qed

theorem C9_never_panics_witness:
  "(\<exists>m m2. DoubleMetaphone id ''Thomas'' 4 = Inr (m, m2)) \<and>
   GetAt (init_env id ''Thomas'' 4) 11 = 0 \<and>
   \<not> IsVowel (init_env id ''Thomas'' 4) (- 1) \<and>
   index_rune (rword (init_env id ''Thomas'' 4)) 2 = Inr (GetAt (init_env id ''Thomas'' 4) 2) \<and>
   \<not> StringAt (init_env id ''Thomas'' 4) 9 3 [''   ''] \<and>
   slice_runes (rword (init_env id ''Thomas'' 4)) 0 2 = Inr (take 2 (drop (nat 0) (rword (init_env id ''Thomas'' 4))))"
proof -
  have r: "rwordLen (init_env id ''Thomas'' 4) = 11"
    by code_simp
  from r C9_never_panics [where up=id and w="''Thomas''" and L=4 and v="init_env id ''Thomas'' 4"
      and e=init_enc and s="[]" and p=MetaphAdd_arity and at=11 and start=9 and len=3
      and ss="[''   '']"]
  have 1: "(\<exists>m m2. DoubleMetaphone id ''Thomas'' 4 = Inr (m, m2)) \<and>
    GetAt (init_env id ''Thomas'' 4) 11 = 0 \<and> \<not> StringAt (init_env id ''Thomas'' 4) 9 3 [''   '']"
    by simp
  from r C9_never_panics [where up=id and w="''Thomas''" and L=4 and v="init_env id ''Thomas'' 4"
      and e=init_enc and s="[]" and p=MetaphAdd_arity and at="- 1" and start=0 and len=2
      and ss="[]"]
  have 2: "\<not> IsVowel (init_env id ''Thomas'' 4) (- 1) \<and>
    slice_runes (rword (init_env id ''Thomas'' 4)) 0 2 = Inr (take 2 (drop (nat 0) (rword (init_env id ''Thomas'' 4))))"
    by simp
  from r C9_never_panics [where up=id and w="''Thomas''" and L=4 and v="init_env id ''Thomas'' 4"
      and e=init_enc and s="[]" and p=MetaphAdd_arity and at=2 and start=0 and len=2
      and ss="[]"]
  have 3: "index_rune (rword (init_env id ''Thomas'' 4)) 2 = Inr (GetAt (init_env id ''Thomas'' 4) 2)"
    by simp
  from 1 2 3 show ?thesis by blast
qed

text \<open>
  Claim C10. For the empty word, and for every word none of whose runes after uppercasing
  is named by a case of the dispatch (\<open>dispatch_runes\<close>: the vowels, the twenty consonant
  letters, C with cedilla and N with tilde), \<open>DoubleMetaphone\<close> returns two empty strings for
  any max length; every iteration then takes the default branch, which emits nothing and
  advances the cursor by 1.
\<close>

theorem C10_unmatched_runes:
  "DoubleMetaphone up [] L = Inr ([], []) \<and>
   ((\<forall>r \<in> set (runes (ToUpper up w)). r \<notin> dispatch_runes) \<longrightarrow>
      DoubleMetaphone up w L = Inr ([], []) \<and>
      (\<forall>e. step (init_env up w L) e = Inr (advance 1 e)))"
proof (intro conjI impI)
  show "DoubleMetaphone up [] L = Inr ([], [])"
    by (simp add: DoubleMetaphone_def)
next
  assume H: "\<forall>r \<in> set (runes (ToUpper up w)). r \<notin> dispatch_runes"
  let ?v = "init_env up w L"
  have nd: "GetAt ?v at \<notin> dispatch_runes" for at
  proof -
    have "(0::int) \<notin> dispatch_runes" "(32::int) \<notin> dispatch_runes"
      by (simp_all add: dispatch_runes_eq)
    then show ?thesis
      using GetAt_cases [of ?v at] H by (auto simp: rword_init_env)
  qed
  show "\<forall>e. step ?v e = Inr (advance 1 e)"
    using nd by (simp add: step_default)
  have "(88::int) \<in> dispatch_runes"
    by (simp add: dispatch_runes_eq)
  then have "GetAt ?v 0 \<noteq> rn CHR ''X''"
    using nd [of 0] by auto
  then obtain e0 where p: "prologue ?v = Inr e0"
      and e0: "primary e0 = [] \<and> secondary e0 = [] \<and> \<not> alternate e0"
    by (simp add: prologue_def Let_def init_enc_def advance_def)
  from main_loop_silent [of ?v e0, OF nd e0]
  obtain e' where "main_loop ?v e0 = Inr e'" "primary e' = []" "secondary e' = []" "\<not> alternate e'"
    by blast
  then show "DoubleMetaphone up w L = Inr ([], [])"
    using p by (simp add: DoubleMetaphone_def Let_def run_def and_then_def finish_def)
qed

theorem C10_unmatched_runes_witness:
  "DoubleMetaphone id ''12 34!'' 4 = Inr ([], []) \<and>
   step (init_env id ''12 34!'' 4) init_enc = Inr (advance 1 init_enc)"
proof -
  have "\<forall>r \<in> set (runes (ToUpper id ''12 34!'')). r \<notin> dispatch_runes"
    by (simp add: dispatch_runes_eq ToUpper_def isASCII_def upperASCII_def runes.simps)
  with C10_unmatched_runes [of id 4 "''12 34!''"] show ?thesis
    by blast
qed

text \<open>
  An excerpt of Go's upper-case table: U+0131, the dotless i, has the upper case U+0049, the
  letter I. It stands for the table where a word has no other rune outside ASCII.
\<close>

definition dotless_i_table :: "rune \<Rightarrow> rune" where
  "dotless_i_table r = (if r = 0x131 then 0x49 else r)"

text \<open>
  Claim C7. Encoding is case-insensitive: \<open>DoubleMetaphone(w, L)\<close>,
  \<open>DoubleMetaphone(uppercase(w), L)\<close> and \<open>DoubleMetaphone(lowercase(w), L)\<close> return the same
  pair. The function's own comment says so too. The code reads \<open>len(word)\<close>, in bytes, before
  it uppercases the word, and compares the cursor, an index into the runes, with it. For
  the word of the bytes C4 B1 6A (a dotless i, U+0131, then j), whose upper case is \<open>IJ\<close>,
  the J is the last rune but not at \<open>len(word) - 1\<close>: the word gives \<open>(AJ, empty)\<close> and its
  upper case gives \<open>(AJ, A)\<close>.
\<close>

theorem C7_case_changes_codes:
  "ToUpper dotless_i_table [CHR 0xC4, CHR 0xB1, CHR ''j''] = ''IJ'' \<and>
   DoubleMetaphone dotless_i_table [CHR 0xC4, CHR 0xB1, CHR ''j''] 4 = Inr (''AJ'', []) \<and>
   DoubleMetaphone dotless_i_table ''IJ'' 4 = Inr (''AJ'', ''A'')"
  by code_simp

text \<open>For a word of ASCII bytes the three calls do agree, whatever the case tables are.\<close>

lemma upperASCII_ascii: "rn c < 0x80 \<Longrightarrow> rn (upperASCII c) < 0x80"
  by (auto simp: upperASCII_def)

lemma upperASCII_idem: "upperASCII (upperASCII c) = upperASCII c"
  by (auto simp: upperASCII_def)

lemma upperASCII_lowerASCII: "upperASCII (lowerASCII c) = upperASCII c"
  by (auto simp: upperASCII_def lowerASCII_def)

lemma lowerASCII_ascii: "rn c < 0x80 \<Longrightarrow> rn (lowerASCII c) < 0x80"
  by (auto simp: lowerASCII_def)

lemma ASCII_case_insensitive:
  assumes "isASCII w"
  shows "DoubleMetaphone up (ToUpper up w) L = DoubleMetaphone up w L \<and>
         DoubleMetaphone up (ToLower lo w) L = DoubleMetaphone up w L"
proof -
  have u: "ToUpper up w = map upperASCII w" and l: "ToLower lo w = map lowerASCII w"
    using assms by (simp_all add: ToUpper_def ToLower_def)
  have au: "isASCII (map upperASCII w)" and al: "isASCII (map lowerASCII w)"
    using assms by (auto simp: isASCII_def upperASCII_ascii lowerASCII_ascii)
  have "ToUpper up (map upperASCII w) = ToUpper up w"
    using au u by (simp add: ToUpper_def upperASCII_idem)
  then have 1: "init_env up (ToUpper up w) L = init_env up w L"
    using u by (simp add: init_env_def)
  have "ToUpper up (map lowerASCII w) = ToUpper up w"
    using al u by (simp add: ToUpper_def upperASCII_lowerASCII)
  then have 2: "init_env up (ToLower lo w) L = init_env up w L"
    using l by (simp add: init_env_def)
  from 1 2 u l show ?thesis
    by (simp add: DoubleMetaphone_def)
qed

section \<open>The index: \<open>MetaphMap\<close>\<close>

text \<open>
  \<open>MetaphMap\<close>: a Go \<open>map[string][]string\<close> and the max length the index was built with.
  A bucket is a slice, modelled as the list of its elements. Reading a key that is not in
  a Go map yields the zero value, here the nil slice.
\<close>

record MetaphMap =
  mapper :: "string \<rightharpoonup> string list"
  maxlen :: int

definition lookup :: "(string \<rightharpoonup> string list) \<Rightarrow> string \<Rightarrow> string list" where
  "lookup M k = (case M k of None \<Rightarrow> [] | Some b \<Rightarrow> b)"

text \<open>The body of the loop of \<open>NewMetaphMap\<close>, for one word of the word list.\<close>

definition add_word ::
  "(rune \<Rightarrow> rune) \<Rightarrow> int \<Rightarrow> string \<Rightarrow> (string \<rightharpoonup> string list) \<Rightarrow> panic + (string \<rightharpoonup> string list)" where
  "add_word up maxLen w MMap =
    (case DoubleMetaphone up w maxLen of
       Inl p \<Rightarrow> Inl p
     | Inr (m, m2) \<Rightarrow>
         let M1 = (if length m > 0 then MMap(m \<mapsto> lookup MMap m @ [w]) else MMap);
             M2 = (if length m2 > 0 then M1(m2 \<mapsto> lookup M1 m2 @ [w]) else M1)
         in Inr M2)"

fun build :: "(rune \<Rightarrow> rune) \<Rightarrow> int \<Rightarrow> string list \<Rightarrow> (string \<rightharpoonup> string list) \<Rightarrow>
    panic + (string \<rightharpoonup> string list)" where
  "build up maxLen [] MMap = Inr MMap"
| "build up maxLen (w # ws) MMap =
    (case add_word up maxLen w MMap of Inl p \<Rightarrow> Inl p | Inr M \<Rightarrow> build up maxLen ws M)"

definition NewMetaphMap :: "(rune \<Rightarrow> rune) \<Rightarrow> string list \<Rightarrow> int \<Rightarrow> panic + MetaphMap" where
  "NewMetaphMap up wordlist maxLen =
    (case build up maxLen wordlist Map.empty of
       Inl p \<Rightarrow> Inl p
     | Inr MMap \<Rightarrow> Inr \<lparr>mapper = MMap, maxlen = maxLen\<rparr>)"

text \<open>
  \<open>removeDups\<close>. Its first loop stores every element of \<open>s\<close> as a key of a fresh map; its
  second loop appends the keys in the order \<open>range\<close> visits them. Go leaves that order
  open, so \<open>removeDups\<close> is a relation between \<open>s\<close> and each slice it may return:
  \<open>range_order S ks\<close> says that \<open>ks\<close> is an order in which \<open>range\<close> may visit a map with the
  keys \<open>S\<close>, each key once.
\<close>

definition range_order :: "string set \<Rightarrow> string list \<Rightarrow> bool" where
  "range_order S ks \<longleftrightarrow> distinct ks \<and> set ks = S"

definition removeDups :: "string list \<Rightarrow> string list \<Rightarrow> bool" where
  "removeDups s out \<longleftrightarrow>
    (\<exists>ks. range_order (fold insert s {}) ks \<and> out = fold (\<lambda>k acc. acc @ [k]) ks [])"

text \<open>
  \<open>MatchWord\<close>: the slice \<open>output\<close> before \<open>removeDups\<close> is a function of the index and the
  word; the result is any slice \<open>removeDups\<close> may return for it, or the panic of the encoder.
\<close>

definition MatchWord_output :: "(rune \<Rightarrow> rune) \<Rightarrow> MetaphMap \<Rightarrow> string \<Rightarrow> panic + string list" where
  "MatchWord_output up metaph w =
    (case DoubleMetaphone up w (maxlen metaph) of
       Inl p \<Rightarrow> Inl p
     | Inr (m, m2) \<Rightarrow>
         let output = (if length m > 0 then lookup (mapper metaph) m else []);
             output2 = (if length m2 > 0 then output @ lookup (mapper metaph) m2 else output)
         in Inr output2)"

definition MatchWord :: "(rune \<Rightarrow> rune) \<Rightarrow> MetaphMap \<Rightarrow> string \<Rightarrow> panic + string list \<Rightarrow> bool" where
  "MatchWord up metaph w r \<longleftrightarrow>
    (case MatchWord_output up metaph w of
       Inl p \<Rightarrow> r = Inl p
     | Inr output \<Rightarrow> (\<exists>out. removeDups output out \<and> r = Inr out))"

subsection \<open>Facts about the index\<close>

text \<open>The non-empty codes of a word, and what one word adds to the bucket of \<open>c\<close>.\<close>

definition codes :: "(rune \<Rightarrow> rune) \<Rightarrow> int \<Rightarrow> string \<Rightarrow> string set" where
  "codes up maxLen w =
    (case DoubleMetaphone up w maxLen of Inl p \<Rightarrow> {} | Inr (m, m2) \<Rightarrow> {m, m2} - {[]})"

definition entries :: "(rune \<Rightarrow> rune) \<Rightarrow> int \<Rightarrow> string \<Rightarrow> string \<Rightarrow> string list" where
  "entries up maxLen c w =
    (case DoubleMetaphone up w maxLen of
       Inl p \<Rightarrow> []
     | Inr (m, m2) \<Rightarrow>
         (if m \<noteq> [] \<and> m = c then [w] else []) @ (if m2 \<noteq> [] \<and> m2 = c then [w] else []))"

lemma fold_insert_set: "fold insert s A = set s \<union> A"
  by (induction s arbitrary: A) auto

lemma fold_snoc: "fold (\<lambda>k acc. acc @ [k]) ks acc0 = acc0 @ ks"
  by (induction ks arbitrary: acc0) auto

lemma removeDups_iff: "removeDups s out \<longleftrightarrow> distinct out \<and> set out = set s"
  by (auto simp: removeDups_def range_order_def fold_insert_set fold_snoc)

lemma removeDups_exists: "\<exists>out. removeDups s out"
  using removeDups_iff [of s "remdups s"] by auto

lemma add_word_lookup:
  "add_word up maxLen w M = Inr M' \<Longrightarrow> lookup M' c = lookup M c @ entries up maxLen c w"
  by (auto simp: add_word_def entries_def lookup_def Let_def split: sum.splits if_splits)

lemma add_word_Inr: "\<exists>M'. add_word up maxLen w M = Inr M'"
  using DoubleMetaphone_Inr [of up w maxLen] by (auto simp: add_word_def Let_def)

lemma build_lookup:
  "build up maxLen ws M = Inr M' \<Longrightarrow>
     lookup M' c = lookup M c @ concat (map (entries up maxLen c) ws)"
proof (induction ws arbitrary: M)
  case Nil
  then show ?case by simp
next
  case (Cons w ws)
  obtain M1 where a: "add_word up maxLen w M = Inr M1"
    using add_word_Inr by blast
  with Cons.prems have "build up maxLen ws M1 = Inr M'" by simp
  from Cons.IH [OF this] add_word_lookup [OF a, of c] show ?case by simp
qed

lemma build_Inr: "\<exists>M'. build up maxLen ws M = Inr M'"
proof (induction ws arbitrary: M)
  case Nil
  then show ?case by simp
next
  case (Cons w ws)
  obtain M1 where "add_word up maxLen w M = Inr M1"
    using add_word_Inr by blast
  with Cons.IH [of M1] show ?case by simp
qed

lemma NewMetaphMap_Inr: "\<exists>metaph. NewMetaphMap up wordlist maxLen = Inr metaph"
  using build_Inr [of up maxLen wordlist Map.empty] by (auto simp: NewMetaphMap_def)

lemma NewMetaphMap_lookup:
  "NewMetaphMap up wordlist maxLen = Inr metaph \<Longrightarrow>
     maxlen metaph = maxLen \<and>
     lookup (mapper metaph) c = concat (map (entries up maxLen c) wordlist)"
proof -
  assume a: "NewMetaphMap up wordlist maxLen = Inr metaph"
  then obtain M where M: "build up maxLen wordlist Map.empty = Inr M"
      and m: "metaph = \<lparr>mapper = M, maxlen = maxLen\<rparr>"
    by (auto simp: NewMetaphMap_def split: sum.splits)
  from build_lookup [OF M, of c] m show ?thesis
    by (simp add: lookup_def)
qed

lemma set_entries: "set (entries up maxLen c w) = (if c \<in> codes up maxLen w then {w} else {})"
  by (auto simp: entries_def codes_def split: sum.splits)

lemma set_bucket:
  "NewMetaphMap up wordlist maxLen = Inr metaph \<Longrightarrow>
     set (lookup (mapper metaph) c) = {x \<in> set wordlist. c \<in> codes up maxLen x}"
  by (auto simp: NewMetaphMap_lookup set_entries split: if_splits)

lemma distinct_concat_entries:
  "distinct ws \<Longrightarrow> (\<And>w. w \<in> set ws \<Longrightarrow> length (entries up maxLen c w) \<le> 1) \<Longrightarrow>
     distinct (concat (map (entries up maxLen c) ws))"
proof (induction ws)
  case Nil
  then show ?case by simp
next
  case (Cons w ws)
  have 1: "distinct (entries up maxLen c w)"
    using Cons.prems(2) [of w] by (cases "entries up maxLen c w") auto
  have 2: "set (entries up maxLen c w) \<subseteq> {w}"
    by (simp add: set_entries)
  have 3: "set (concat (map (entries up maxLen c) ws)) \<subseteq> set ws"
    by (auto simp: set_entries split: if_splits)
  from Cons 1 2 3 show ?case by auto
qed

lemma card_codes: "card (codes up maxLen w) \<le> 2"
proof -
  obtain m m2 where "DoubleMetaphone up w maxLen = Inr (m, m2)"
    using DoubleMetaphone_Inr by blast
  then have "codes up maxLen w \<subseteq> {m, m2}"
    by (auto simp: codes_def)
  then have "card (codes up maxLen w) \<le> card {m, m2}"
    by (intro card_mono) auto
  also have "\<dots> \<le> 2"
    by (simp add: card_insert_if)
  finally show ?thesis .
qed

text \<open>The bucket of the code \<open>c\<close> in the result of \<open>NewMetaphMap\<close>.\<close>

definition bucket_of :: "panic + MetaphMap \<Rightarrow> string \<Rightarrow> panic + string list" where
  "bucket_of r c = map_sum id (\<lambda>metaph. lookup (mapper metaph) c) r"

section \<open>The claims about the index\<close>

text \<open>
  Claim C5. In the index built by \<open>NewMetaphMap\<close> every input word appears in the bucket of
  each distinct non-empty code it produced, and no bucket holds the same word twice.
  The second half fails: \<open>NewMetaphMap\<close> appends without looking at the bucket, so a word
  that occurs twice in the word list is stored twice.
\<close>

theorem C5_duplicates_are_stored:
  "bucket_of (NewMetaphMap id [''a'', ''a''] 4) ''A'' = Inr [''a'', ''a'']"
  by code_simp

text \<open>
  A word whose secondary code equals its primary code is stored twice as well, since
  each of the two codes appends the word.
\<close>

lemma one_word_twice:
  "DoubleMetaphone id ''allela'' 2 = Inr (''AL'', ''AL'') \<and>
   bucket_of (NewMetaphMap id [''allela''] 2) ''AL'' = Inr [''allela'', ''allela'']"
  by code_simp

text \<open>
  A word that produced no non-empty code, such as one of digits and punctuation or an
  empty line, is in no bucket: the count "1 or 2" of the claim is 0, 1 or 2.
\<close>

lemma word_without_code:
  "codes id 4 ''12 34!'' = {} \<and> bucket_of (NewMetaphMap id [''12 34!''] 4) c = Inr []"
proof -
  have dm: "DoubleMetaphone id ''12 34!'' 4 = Inr ([], [])"
    by code_simp
  then show ?thesis
    by (simp add: codes_def bucket_of_def NewMetaphMap_def add_word_def lookup_def)
qed

text \<open>
  Claim C5 as amended. Every input word appears in the bucket of each of its non-empty
  codes and in no other bucket: in 0, 1 or 2 buckets, none for a word with no non-empty
  code. A bucket holds exactly the input words that produced its key. When the word list
  has no duplicates and no word has a secondary code equal to its primary code, no bucket
  holds the same word twice.
\<close>

theorem C5_buckets:
  assumes nm: "NewMetaphMap up wordlist maxLen = Inr metaph"
  shows "(\<forall>w \<in> set wordlist. \<forall>c \<in> codes up maxLen w. w \<in> set (lookup (mapper metaph) c)) \<and>
         (\<forall>c. set (lookup (mapper metaph) c) = {w \<in> set wordlist. c \<in> codes up maxLen w}) \<and>
         (\<forall>w \<in> set wordlist.
            {c. w \<in> set (lookup (mapper metaph) c)} = codes up maxLen w \<and>
            card {c. w \<in> set (lookup (mapper metaph) c)} \<le> 2) \<and>
         (distinct wordlist \<and>
          (\<forall>w \<in> set wordlist. \<forall>m m2. DoubleMetaphone up w maxLen = Inr (m, m2) \<longrightarrow> m \<noteq> m2 \<or> m2 = [])
          \<longrightarrow> (\<forall>c. distinct (lookup (mapper metaph) c)))"
proof -
  have b: "\<forall>c. set (lookup (mapper metaph) c) = {w \<in> set wordlist. c \<in> codes up maxLen w}"
    using set_bucket [OF nm] by blast
  then have a: "\<forall>w \<in> set wordlist. \<forall>c \<in> codes up maxLen w. w \<in> set (lookup (mapper metaph) c)"
    by blast
  have d: "\<forall>w \<in> set wordlist.
            {c. w \<in> set (lookup (mapper metaph) c)} = codes up maxLen w \<and>
            card {c. w \<in> set (lookup (mapper metaph) c)} \<le> 2"
  proof
    fix w
    assume "w \<in> set wordlist"
    with b have "{c. w \<in> set (lookup (mapper metaph) c)} = codes up maxLen w"
      by auto
    then show "{c. w \<in> set (lookup (mapper metaph) c)} = codes up maxLen w \<and>
            card {c. w \<in> set (lookup (mapper metaph) c)} \<le> 2"
      using card_codes [of up maxLen w] by simp
  qed
  have c: "distinct wordlist \<and>
          (\<forall>w \<in> set wordlist. \<forall>m m2. DoubleMetaphone up w maxLen = Inr (m, m2) \<longrightarrow> m \<noteq> m2 \<or> m2 = [])
          \<longrightarrow> (\<forall>c. distinct (lookup (mapper metaph) c))"
  proof (intro impI allI)
    fix c
    assume h: "distinct wordlist \<and>
          (\<forall>w \<in> set wordlist. \<forall>m m2. DoubleMetaphone up w maxLen = Inr (m, m2) \<longrightarrow> m \<noteq> m2 \<or> m2 = [])"
    have "length (entries up maxLen c w) \<le> 1" if "w \<in> set wordlist" for w
    proof -
      obtain m m2 where dm: "DoubleMetaphone up w maxLen = Inr (m, m2)"
        using DoubleMetaphone_Inr by blast
      with h that have "m \<noteq> m2 \<or> m2 = []" by blast
      with dm show ?thesis by (auto simp: entries_def)
    qed
    with h have "distinct (concat (map (entries up maxLen c) wordlist))"
      by (intro distinct_concat_entries) auto
    then show "distinct (lookup (mapper metaph) c)"
      using NewMetaphMap_lookup [OF nm, of c] by simp
  qed
  from a b c d show ?thesis by blast
qed

theorem C5_buckets_witness:
  "bucket_of (NewMetaphMap id [''pneumonia'', ''12 34!'', ''Jack'', ''knewmoania''] 4) ''NMN'' =
     Inr [''pneumonia'', ''knewmoania''] \<and>
   (\<exists>metaph. NewMetaphMap id [''pneumonia'', ''12 34!'', ''Jack'', ''knewmoania''] 4 = Inr metaph \<and>
      ''pneumonia'' \<in> set (lookup (mapper metaph) ''NMN'') \<and>
      {c. ''pneumonia'' \<in> set (lookup (mapper metaph) c)} = {''NMN''} \<and>
      {c. ''12 34!'' \<in> set (lookup (mapper metaph) c)} = {} \<and>
      {c. ''Jack'' \<in> set (lookup (mapper metaph) c)} = {''JK'', ''AK''} \<and>
      distinct (lookup (mapper metaph) ''NMN''))"
proof -
  let ?ws = "[''pneumonia'', ''12 34!'', ''Jack'', ''knewmoania'']"
  obtain metaph where nm: "NewMetaphMap id ?ws 4 = Inr metaph"
    using NewMetaphMap_Inr by blast
  have v: "bucket_of (NewMetaphMap id ?ws 4) ''NMN'' = Inr [''pneumonia'', ''knewmoania'']"
    by code_simp
  have d: "distinct ?ws" by simp
  have dm: "DoubleMetaphone id ''pneumonia'' 4 = Inr (''NMN'', [])"
     "DoubleMetaphone id ''12 34!'' 4 = Inr ([], [])"
     "DoubleMetaphone id ''Jack'' 4 = Inr (''JK'', ''AK'')"
     "DoubleMetaphone id ''knewmoania'' 4 = Inr (''NMN'', [])"
    by code_simp+
  then have c1: "codes id 4 ''pneumonia'' = {''NMN''}" "codes id 4 ''12 34!'' = {}"
     "codes id 4 ''Jack'' = {''JK'', ''AK''}"
    by (auto simp: codes_def)
  from dm have ne: "\<forall>w \<in> set ?ws. \<forall>m m2. DoubleMetaphone id w 4 = Inr (m, m2) \<longrightarrow> m \<noteq> m2 \<or> m2 = []"
    by simp
  note t = C5_buckets [OF nm]
  note tD = t [THEN conjunct2, THEN conjunct2, THEN conjunct1]
  note tC = t [THEN conjunct2, THEN conjunct2, THEN conjunct2]
  have k1: "{c. ''pneumonia'' \<in> set (lookup (mapper metaph) c)} = {''NMN''}"
    using tD [THEN bspec, of "''pneumonia''"] c1(1) by simp
  have k2: "{c. ''12 34!'' \<in> set (lookup (mapper metaph) c)} = {}"
    using tD [THEN bspec, of "''12 34!''"] c1(2) by simp
  have k3: "{c. ''Jack'' \<in> set (lookup (mapper metaph) c)} = {''JK'', ''AK''}"
    using tD [THEN bspec, of "''Jack''"] c1(3) by simp
  have "''NMN'' \<in> {c. ''pneumonia'' \<in> set (lookup (mapper metaph) c)}"
    unfolding k1 by simp
  then have k0: "''pneumonia'' \<in> set (lookup (mapper metaph) ''NMN'')"
    by simp
  have k4: "distinct (lookup (mapper metaph) ''NMN'')"
    using tC [THEN mp, OF conjI [OF d ne], THEN spec, of "''NMN''"] .
  from k0 k1 k2 k3 k4
  have "''pneumonia'' \<in> set (lookup (mapper metaph) ''NMN'') \<and>
      {c. ''pneumonia'' \<in> set (lookup (mapper metaph) c)} = {''NMN''} \<and>
      {c. ''12 34!'' \<in> set (lookup (mapper metaph) c)} = {} \<and>
      {c. ''Jack'' \<in> set (lookup (mapper metaph) c)} = {''JK'', ''AK''} \<and>
      distinct (lookup (mapper metaph) ''NMN'')"
    by simp
  with nm have "\<exists>metaph. NewMetaphMap id ?ws 4 = Inr metaph \<and>
      ''pneumonia'' \<in> set (lookup (mapper metaph) ''NMN'') \<and>
      {c. ''pneumonia'' \<in> set (lookup (mapper metaph) c)} = {''NMN''} \<and>
      {c. ''12 34!'' \<in> set (lookup (mapper metaph) c)} = {} \<and>
      {c. ''Jack'' \<in> set (lookup (mapper metaph) c)} = {''JK'', ''AK''} \<and>
      distinct (lookup (mapper metaph) ''NMN'')"
    by (intro exI [of _ metaph] conjI) simp_all
  with v show ?thesis by (intro conjI)
qed

text \<open>
  Claim C4. For a word \<open>w\<close> whose primary code is non-empty, \<open>MatchWord\<close> on the index built
  by \<open>NewMetaphMap(wordlist, maxLen)\<close> encodes \<open>w\<close> with the index's \<open>maxLen\<close> and returns a
  result: a slice is a possible result exactly when it has no duplicates and its elements
  are those of the buckets of the non-empty codes of \<open>w\<close>. These are the indexed words
  that have a non-empty code in common with \<open>w\<close>, among them \<open>w\<close> itself when it is in the
  word list. The set of results is the same for every word list with the same words, in
  any order. An empty code is the absence of a code: two words with empty secondary codes
  do not share a code by that.
\<close>

theorem C4_MatchWord:
  assumes nm: "NewMetaphMap up wordlist maxLen = Inr metaph"
    and dm: "DoubleMetaphone up w maxLen = Inr (m, m2)"
    and m: "m \<noteq> []"
  shows "maxlen metaph = maxLen \<and>
         (\<exists>r. MatchWord up metaph w r) \<and>
         (\<forall>out. MatchWord up metaph w (Inr out) \<longleftrightarrow>
            distinct out \<and>
            set out = set (lookup (mapper metaph) m) \<union>
                      (if m2 \<noteq> [] then set (lookup (mapper metaph) m2) else {})) \<and>
         (\<forall>r. MatchWord up metaph w r \<longrightarrow>
           (\<exists>out. r = Inr out \<and> distinct out \<and>
              set out = set (lookup (mapper metaph) m) \<union>
                        (if m2 \<noteq> [] then set (lookup (mapper metaph) m2) else {}) \<and>
              set out = {x \<in> set wordlist. codes up maxLen x \<inter> codes up maxLen w \<noteq> {}} \<and>
              (w \<in> set wordlist \<longrightarrow> w \<in> set out) \<and>
              (\<forall>wordlist' metaph' out'.
                 set wordlist' = set wordlist \<and> NewMetaphMap up wordlist' maxLen = Inr metaph' \<and>
                 MatchWord up metaph' w (Inr out') \<longrightarrow> set out' = set out)))"
proof -
  have ml: "maxlen metaph = maxLen"
    using NewMetaphMap_lookup [OF nm] by simp
  have cw: "codes up maxLen w = {m, m2} - {[]}"
    using dm by (simp add: codes_def)
  have outp: "MatchWord_output up mp' w =
      Inr (lookup (mapper mp') m @ (if m2 \<noteq> [] then lookup (mapper mp') m2 else []))"
    if "maxlen mp' = maxLen" for mp'
    using dm m that by (simp add: MatchWord_output_def Let_def)
  have iff: "MatchWord up mp' w (Inr out') \<longleftrightarrow>
      distinct out' \<and>
      set out' = set (lookup (mapper mp') m) \<union> (if m2 \<noteq> [] then set (lookup (mapper mp') m2) else {})"
    if "maxlen mp' = maxLen" for mp' out'
    using outp [OF that] by (auto simp: MatchWord_def removeDups_iff)
  have gen: "set out' = {x \<in> set ws'. codes up maxLen x \<inter> codes up maxLen w \<noteq> {}}"
    if n': "NewMetaphMap up ws' maxLen = Inr mp'" and mw': "MatchWord up mp' w (Inr out')"
    for ws' mp' out'
  proof -
    have ml': "maxlen mp' = maxLen"
      using NewMetaphMap_lookup [OF n'] by simp
    from mw' iff [OF ml'] have "set out' =
        set (lookup (mapper mp') m) \<union> (if m2 \<noteq> [] then set (lookup (mapper mp') m2) else {})"
      by simp
    also have "\<dots> = {x \<in> set ws'. codes up maxLen x \<inter> codes up maxLen w \<noteq> {}}"
      using m by (auto simp: set_bucket [OF n'] cw)
    finally show ?thesis .
  qed
  have ex: "\<exists>r. MatchWord up metaph w r"
  proof -
    obtain out where "removeDups
        (lookup (mapper metaph) m @ (if m2 \<noteq> [] then lookup (mapper metaph) m2 else [])) out"
      using removeDups_exists by blast
    then have "MatchWord up metaph w (Inr out)"
      using outp [OF ml] by (auto simp: MatchWord_def)
    then show ?thesis by blast
  qed
  have all: "\<forall>r. MatchWord up metaph w r \<longrightarrow>
           (\<exists>out. r = Inr out \<and> distinct out \<and>
              set out = set (lookup (mapper metaph) m) \<union>
                        (if m2 \<noteq> [] then set (lookup (mapper metaph) m2) else {}) \<and>
              set out = {x \<in> set wordlist. codes up maxLen x \<inter> codes up maxLen w \<noteq> {}} \<and>
              (w \<in> set wordlist \<longrightarrow> w \<in> set out) \<and>
              (\<forall>wordlist' metaph' out'.
                 set wordlist' = set wordlist \<and> NewMetaphMap up wordlist' maxLen = Inr metaph' \<and>
                 MatchWord up metaph' w (Inr out') \<longrightarrow> set out' = set out))"
  proof (intro allI impI)
    fix r
    assume mw: "MatchWord up metaph w r"
    obtain out where r: "r = Inr out"
      using mw outp [OF ml] by (auto simp: MatchWord_def)
    with mw have mwo: "MatchWord up metaph w (Inr out)" by simp
    note g = gen [OF nm mwo]
    note i = iff [OF ml, of out, THEN iffD1, OF mwo]
    have self: "w \<in> set wordlist \<longrightarrow> w \<in> set out"
      using g m cw by auto
    have ord: "\<forall>wordlist' metaph' out'.
               set wordlist' = set wordlist \<and> NewMetaphMap up wordlist' maxLen = Inr metaph' \<and>
               MatchWord up metaph' w (Inr out') \<longrightarrow> set out' = set out"
    proof (intro allI impI)
      fix wordlist' metaph' out'
      assume h: "set wordlist' = set wordlist \<and> NewMetaphMap up wordlist' maxLen = Inr metaph' \<and>
               MatchWord up metaph' w (Inr out')"
      then have "set out' = {x \<in> set wordlist'. codes up maxLen x \<inter> codes up maxLen w \<noteq> {}}"
        using gen [of wordlist' metaph' out'] by blast
      with h g show "set out' = set out" by simp
    qed
    from r g i self ord
    show "\<exists>out. r = Inr out \<and> distinct out \<and>
              set out = set (lookup (mapper metaph) m) \<union>
                        (if m2 \<noteq> [] then set (lookup (mapper metaph) m2) else {}) \<and>
              set out = {x \<in> set wordlist. codes up maxLen x \<inter> codes up maxLen w \<noteq> {}} \<and>
              (w \<in> set wordlist \<longrightarrow> w \<in> set out) \<and>
              (\<forall>wordlist' metaph' out'.
                 set wordlist' = set wordlist \<and> NewMetaphMap up wordlist' maxLen = Inr metaph' \<and>
                 MatchWord up metaph' w (Inr out') \<longrightarrow> set out' = set out)"
      by blast
  qed
  from ml ex iff [OF ml] all show ?thesis by blast
qed

theorem C4_MatchWord_witness:
  "\<exists>metaph. NewMetaphMap id [''Jack'', ''ack'', ''Thomas'', ''Jack''] 4 = Inr metaph \<and>
     maxlen metaph = 4 \<and>
     lookup (mapper metaph) ''JK'' = [''Jack'', ''Jack''] \<and>
     lookup (mapper metaph) ''AK'' = [''Jack'', ''ack'', ''Jack''] \<and>
     MatchWord_output id metaph ''Jack'' = Inr [''Jack'', ''Jack'', ''Jack'', ''ack'', ''Jack''] \<and>
     (\<exists>r. MatchWord id metaph ''Jack'' r) \<and>
     MatchWord id metaph ''Jack'' (Inr [''ack'', ''Jack'']) \<and>
     \<not> MatchWord id metaph ''Jack'' (Inr [''Jack'', ''ack'', ''Jack'']) \<and>
     \<not> MatchWord id metaph ''Jack'' (Inr [''Jack''])"
proof -
  let ?ws = "[''Jack'', ''ack'', ''Thomas'', ''Jack'']"
  obtain metaph where nm: "NewMetaphMap id ?ws 4 = Inr metaph"
    using NewMetaphMap_Inr by blast
  have dm: "DoubleMetaphone id ''Jack'' 4 = Inr (''JK'', ''AK'')"
    by code_simp
  have "concat (map (entries id 4 ''JK'') ?ws) = [''Jack'', ''Jack'']"
       "concat (map (entries id 4 ''AK'') ?ws) = [''Jack'', ''ack'', ''Jack'']"
    by code_simp+
  then have lk: "lookup (mapper metaph) ''JK'' = [''Jack'', ''Jack'']"
      "lookup (mapper metaph) ''AK'' = [''Jack'', ''ack'', ''Jack'']"
      and ml: "maxlen metaph = 4"
    using NewMetaphMap_lookup [OF nm, of "''JK''"] NewMetaphMap_lookup [OF nm, of "''AK''"]
    by simp_all
  have mo: "MatchWord_output id metaph ''Jack'' = Inr [''Jack'', ''Jack'', ''Jack'', ''ack'', ''Jack'']"
    using dm lk ml by (simp add: MatchWord_output_def)
  have ne: "''JK'' \<noteq> ([] :: string)" by simp
  note t = C4_MatchWord [OF nm dm ne]
  note ex = t [THEN conjunct2, THEN conjunct1]
  note iff = t [THEN conjunct2, THEN conjunct2, THEN conjunct1, THEN spec]
  have a: "MatchWord id metaph ''Jack'' (Inr [''ack'', ''Jack''])"
    unfolding iff lk by auto
  have b: "\<not> MatchWord id metaph ''Jack'' (Inr [''Jack'', ''ack'', ''Jack''])"
    unfolding iff lk by simp
  have c: "\<not> MatchWord id metaph ''Jack'' (Inr [''Jack''])"
    unfolding iff lk by auto
  from nm ml lk mo ex a b c show ?thesis
    by (intro exI [of _ metaph] conjI)
qed

end
